theory Spec2Isabelle
  imports Complex_Main "HOL-Library.Sublist" "HOL-Library.Log_Nat"
begin

section \<open>Sensitive-region detection and redaction (Banana Studio)\<close>

text \<open>
  A shallow embedding of the detection and redaction pipeline of \<^verbatim>\<open>src/extension.ts\<close>
  and \<^verbatim>\<open>src/types.ts\<close>: the response parser (\<^verbatim>\<open>parseJsonResponse\<close>,
  \<^verbatim>\<open>parseAndValidateDetections\<close>), the detection validator
  (\<^verbatim>\<open>isValidBoundingBox\<close>), the coordinate mapping, the backup and the blur loop of
  \<^verbatim>\<open>blurRegions\<close>, and \<^verbatim>\<open>restoreFromBackup\<close>.

  Conventions of the embedding.
  \<^item> A JavaScript number is an IEEE double: NaN, an infinity, or a finite value held as
    the rational it denotes. Every arithmetic operation rounds its exact result to the
    nearest double, a tie going to the even significand. The sign of zero is not kept:
    no comparison of the code tells the two zeros apart.
  \<^item> A JavaScript string is a \<^typ>\<open>string\<close>: a sequence of code units below 256.
  \<^item> A \<^verbatim>\<open>throw\<close> is the left injection of a sum; \<^verbatim>\<open>try/catch\<close> is a case
    distinction on it.
  \<^item> The platform libraries the code calls (\<^verbatim>\<open>JSON.parse\<close>, Node's \<^verbatim>\<open>path\<close>,
    the Jimp image codec) and the conversion of strings, arrays and objects to numbers
    are parameters of the functions that use them, so every theorem holds for each
    behaviour of these.
  \<^item> The file system is a map from path strings to the bytes of regular files;
    directories and links are not modelled.
\<close>

subsection \<open>Errors\<close>

datatype js_error =
    SyntaxError
  | TypeError
  | ENOENT
  | ImageError

subsection \<open>Numbers\<close>

datatype jsnum =
    NaN
  | PosInf
  | NegInf
  | Fin rat

definition pow2 :: "int \<Rightarrow> rat" where
  "pow2 e = 2 powi e"

text \<open>
  The binary exponent of a positive rational, \<open>\<lfloor>log\<^sub>2 q\<rfloor>\<close>: the bit lengths of numerator
  and denominator give it up to one, the comparison decides.
\<close>

definition ilog2 :: "rat \<Rightarrow> int" where
  "ilog2 q = (let (a, b) = quotient_of q; k = bitlen a - bitlen b
              in if pow2 k \<le> q then k else k - 1)"

definition roundHalfEven :: "rat \<Rightarrow> int" where
  "roundHalfEven x =
     (let f = \<lfloor>x\<rfloor>; d = x - of_int f
      in if d < 1 / 2 then f else if 1 / 2 < d then f + 1 else if even f then f else f + 1)"

text \<open>
  Rounding a positive rational to binary64: 53 significant bits, the exponent not
  below \<open>-1022\<close> (subnormal numbers share the quantum \<open>2\<^sup>-\<^sup>1\<^sup>0\<^sup>7\<^sup>4\<close>), and infinity when the
  rounded value reaches \<open>2\<^sup>1\<^sup>0\<^sup>2\<^sup>4\<close>: the exponent is beyond 1023, or it is 1023 and the
  significand was rounded up to \<open>2\<^sup>5\<^sup>3\<close>.
\<close>

definition toDoublePos :: "rat \<Rightarrow> jsnum" where
  "toDoublePos q =
     (let e = max (ilog2 q) (- 1022);
          quantum = pow2 (e - 52);
          m = roundHalfEven (q / quantum)
      in if 1024 \<le> e \<or> (e = 1023 \<and> m = 2 ^ 53) then PosInf else Fin (of_int m * quantum))"

fun num_neg :: "jsnum \<Rightarrow> jsnum" where
  "num_neg NaN = NaN"
| "num_neg PosInf = NegInf"
| "num_neg NegInf = PosInf"
| "num_neg (Fin q) = Fin (- q)"

definition toDouble :: "rat \<Rightarrow> jsnum" where
  "toDouble q =
     (if q = 0 then Fin 0 else if 0 < q then toDoublePos q else num_neg (toDoublePos (- q)))"

text \<open>An integer as a number, as \<^verbatim>\<open>image.width\<close> is.\<close>

definition num_of_int :: "int \<Rightarrow> jsnum" where
  "num_of_int n = toDouble (of_int n)"

text \<open>\<^verbatim>\<open>a - b\<close>.\<close>

fun num_sub :: "jsnum \<Rightarrow> jsnum \<Rightarrow> jsnum" where
  "num_sub (Fin a) (Fin b) = toDouble (a - b)"
| "num_sub NaN _ = NaN"
| "num_sub _ NaN = NaN"
| "num_sub PosInf PosInf = NaN"
| "num_sub NegInf NegInf = NaN"
| "num_sub PosInf _ = PosInf"
| "num_sub NegInf _ = NegInf"
| "num_sub (Fin a) PosInf = NegInf"
| "num_sub (Fin a) NegInf = PosInf"

text \<open>\<^verbatim>\<open>a * b\<close>.\<close>

fun num_mul :: "jsnum \<Rightarrow> jsnum \<Rightarrow> jsnum" where
  "num_mul (Fin a) (Fin b) = toDouble (a * b)"
| "num_mul NaN _ = NaN"
| "num_mul _ NaN = NaN"
| "num_mul PosInf (Fin b) = (if b = 0 then NaN else if 0 < b then PosInf else NegInf)"
| "num_mul NegInf (Fin b) = (if b = 0 then NaN else if 0 < b then NegInf else PosInf)"
| "num_mul (Fin a) PosInf = (if a = 0 then NaN else if 0 < a then PosInf else NegInf)"
| "num_mul (Fin a) NegInf = (if a = 0 then NaN else if 0 < a then NegInf else PosInf)"
| "num_mul PosInf PosInf = PosInf"
| "num_mul PosInf NegInf = NegInf"
| "num_mul NegInf PosInf = NegInf"
| "num_mul NegInf NegInf = PosInf"

text \<open>\<^verbatim>\<open>a / d\<close> for a positive constant \<open>d\<close> (the code divides by 1000 and by 2).\<close>

fun num_div_by :: "jsnum \<Rightarrow> rat \<Rightarrow> jsnum" where
  "num_div_by (Fin a) d = toDouble (a / d)"
| "num_div_by v d = v"

text \<open>\<^verbatim>\<open>Math.round\<close>: the nearest integer, a tie going up.\<close>

fun Math_round :: "jsnum \<Rightarrow> jsnum" where
  "Math_round (Fin a) = Fin (of_int \<lfloor>a + 1 / 2\<rfloor>)"
| "Math_round v = v"

text \<open>\<^verbatim>\<open>a <= b\<close>: false when either side is NaN.\<close>

fun num_le :: "jsnum \<Rightarrow> jsnum \<Rightarrow> bool" where
  "num_le NaN _ = False"
| "num_le _ NaN = False"
| "num_le NegInf _ = True"
| "num_le _ PosInf = True"
| "num_le (Fin a) (Fin b) = (a \<le> b)"
| "num_le _ _ = False"

text \<open>\<^verbatim>\<open>Math.min\<close> and \<^verbatim>\<open>Math.max\<close>: NaN when either argument is NaN.\<close>

definition Math_min :: "jsnum \<Rightarrow> jsnum \<Rightarrow> jsnum" where
  "Math_min a b = (if a = NaN \<or> b = NaN then NaN else if num_le a b then a else b)"

definition Math_max :: "jsnum \<Rightarrow> jsnum \<Rightarrow> jsnum" where
  "Math_max a b = (if a = NaN \<or> b = NaN then NaN else if num_le a b then b else a)"

subsection \<open>Parsed JSON values\<close>

text \<open>
  A number of a parsed text is a double: \<^verbatim>\<open>JSON.parse\<close> gives an infinity for a
  numeral beyond the range, such as \<^verbatim>\<open>2e308\<close>.
\<close>

datatype json =
    JNull
  | JBool bool
  | JNum jsnum
  | JStr string
  | JArr "json list"
  | JObj "(string \<times> json) list"


text \<open>
  An object is the list of its members in the order of the JSON text; of two members
  with the same key \<^verbatim>\<open>JSON.parse\<close> keeps the later one.
\<close>

definition getProperty :: "(string \<times> json) list \<Rightarrow> string \<Rightarrow> json option" where
  "getProperty fields k = map_of (rev fields) k"

text \<open>\<^verbatim>\<open>b.box_2d\<close>; \<^const>\<open>None\<close> is \<^verbatim>\<open>undefined\<close>. Only objects carry the property.\<close>

definition box_2d_of :: "json \<Rightarrow> json option" where
  "box_2d_of v = (case v of JObj fields \<Rightarrow> getProperty fields ''box_2d'' | _ \<Rightarrow> None)"

text \<open>\<^verbatim>\<open>typeof v === 'object'\<close>: true of null, of arrays and of objects.\<close>

definition typeofObject :: "json \<Rightarrow> bool" where
  "typeofObject v = (case v of JNull \<Rightarrow> True | JArr _ \<Rightarrow> True | JObj _ \<Rightarrow> True | _ \<Rightarrow> False)"

text \<open>\<^verbatim>\<open>typeof n === 'number'\<close>.\<close>

definition typeofNumber :: "json \<Rightarrow> bool" where
  "typeofNumber v = (case v of JNum _ \<Rightarrow> True | _ \<Rightarrow> False)"

subsection \<open>The detection validator (types.ts, lines 150--156)\<close>

definition isValidBoundingBox :: "json \<Rightarrow> bool" where
  "isValidBoundingBox box =
     (if \<not> typeofObject box \<or> box = JNull then False
      else (case box_2d_of box of
              Some (JArr ns) \<Rightarrow> length ns = 4 \<and> list_all typeofNumber ns
            | _ \<Rightarrow> False))"

text \<open>
  The tail of \<^verbatim>\<open>parseAndValidateDetections\<close> (lines 196--198): a parsed value that is
  not an array gives the empty list, an array is filtered.
\<close>

definition validateParsed :: "json \<Rightarrow> json list" where
  "validateParsed parsed =
     (case parsed of JArr records \<Rightarrow> filter isValidBoundingBox records | _ \<Rightarrow> [])"

subsection \<open>String primitives\<close>

text \<open>The white space of \<^verbatim>\<open>\s\<close> and of \<^verbatim>\<open>String.prototype.trim\<close>, below code unit 256.\<close>

definition isWhiteSpace :: "char \<Rightarrow> bool" where
  "isWhiteSpace c =
     (c \<in> set [CHR 0x09, CHR 0x0A, CHR 0x0B, CHR 0x0C, CHR 0x0D, CHR 0x20, CHR 0xA0])"

definition trim :: "string \<Rightarrow> string" where
  "trim s = rev (dropWhile isWhiteSpace (rev (dropWhile isWhiteSpace s)))"

text \<open>
  The first occurrence of a pattern: the text before it and the text after it.
\<close>

fun findSub :: "string \<Rightarrow> string \<Rightarrow> (string \<times> string) option" where
  "findSub pat [] = (if pat = [] then Some ([], []) else None)"
| "findSub pat (c # cs) =
     (if prefix pat (c # cs) then Some ([], drop (length pat) (c # cs))
      else map_option (\<lambda>(front, back). (c # front, back)) (findSub pat cs))"

text \<open>\<^verbatim>\<open>s.includes(pat)\<close>.\<close>

definition includesStr :: "string \<Rightarrow> string \<Rightarrow> bool" where
  "includesStr s pat = (findSub pat s \<noteq> None)"

text \<open>\<^verbatim>\<open>s.replace(pat, '')\<close> with a string pattern: the first occurrence only.\<close>

definition removeFirst :: "string \<Rightarrow> string \<Rightarrow> string" where
  "removeFirst pat s = (case findSub pat s of None \<Rightarrow> s | Some (front, back) \<Rightarrow> front @ back)"

subsection \<open>The two regular expressions of the response parser\<close>

text \<open>
  The continuation of the fence expression after its opening backticks:
  \<^verbatim>\<open>(?:json)?\s*([\s\S]*?)```\<close>. The alternatives are tried in the order of a
  backtracking matcher: the tag taken before the tag left out, more white space before
  less, and the shortest capture first. The result is capture group 1.
\<close>

definition fenceStarts :: "string \<Rightarrow> string list" where
  "fenceStarts r =
     concat (map (\<lambda>r1. map (\<lambda>k. drop k r1) (rev [0 ..< Suc (length (takeWhile isWhiteSpace r1))]))
       ((if prefix ''json'' r then [drop 4 r] else []) @ [r]))"

definition fenceBody :: "string \<Rightarrow> string option" where
  "fenceBody r =
     (case List.map_filter (\<lambda>r2. map_option fst (findSub ''```'' r2)) (fenceStarts r) of
        [] \<Rightarrow> None
      | inner # _ \<Rightarrow> Some inner)"

text \<open>\<^verbatim>\<open>text.match(/```(?:json)?\s*([\s\S]*?)```/)\<close>: the leftmost match, its group 1.\<close>

fun matchFence :: "string \<Rightarrow> string option" where
  "matchFence [] = None"
| "matchFence (c # cs) =
     (if prefix ''```'' (c # cs)
      then (case fenceBody (drop 3 (c # cs)) of
              Some inner \<Rightarrow> Some inner
            | None \<Rightarrow> matchFence cs)
      else matchFence cs)"

text \<open>
  \<^verbatim>\<open>text.match(/\[[\s\S]*\]/)\<close>: from the leftmost opening bracket that has a closing
  bracket after it to the last closing bracket of the text.
\<close>

fun matchArray :: "string \<Rightarrow> string option" where
  "matchArray [] = None"
| "matchArray (c # cs) =
     (if c = CHR ''['' \<and> CHR '']'' \<in> set cs
      then Some (c # rev (dropWhile (\<lambda>d. d \<noteq> CHR '']'') (rev cs)))
      else matchArray cs)"

subsection \<open>The response parser\<close>

text \<open>
  \<^verbatim>\<open>parseJsonResponse\<close> (extension.ts, lines 2227--2254). The first argument is
  \<^verbatim>\<open>JSON.parse\<close>, which throws on a text that is not JSON. The function returns what
  \<^verbatim>\<open>JSON.parse\<close> returns, array or not.
\<close>

definition parseJsonResponse :: "(string \<Rightarrow> js_error + json) \<Rightarrow> string \<Rightarrow> js_error + json" where
  "parseJsonResponse JSON_parse text =
     (case JSON_parse text of
        Inr v \<Rightarrow> Inr v
      | Inl _ \<Rightarrow>
         (case matchFence text of
            Some inner \<Rightarrow>
              (case JSON_parse (trim inner) of
                 Inr v \<Rightarrow> Inr v
               | Inl _ \<Rightarrow> Inr (JArr []))
          | None \<Rightarrow>
              (case matchArray text of
                 Some arr \<Rightarrow>
                   (case JSON_parse arr of
                      Inr v \<Rightarrow> Inr v
                    | Inl _ \<Rightarrow> Inr (JArr []))
               | None \<Rightarrow> Inr (JArr []))))"

text \<open>\<^verbatim>\<open>parseAndValidateDetections\<close> (types.ts, lines 167--199).\<close>

definition parseAndValidateDetections ::
  "(string \<Rightarrow> js_error + json) \<Rightarrow> string \<Rightarrow> js_error + json list" where
  "parseAndValidateDetections JSON_parse text =
     (case JSON_parse text of
        Inr parsed \<Rightarrow> Inr (validateParsed parsed)
      | Inl _ \<Rightarrow>
         (case matchFence text of
            Some inner \<Rightarrow>
              (case JSON_parse (trim inner) of
                 Inr parsed \<Rightarrow> Inr (validateParsed parsed)
               | Inl _ \<Rightarrow>
                  (case matchArray text of
                     Some arr \<Rightarrow>
                       (case JSON_parse arr of
                          Inr parsed \<Rightarrow> Inr (validateParsed parsed)
                        | Inl _ \<Rightarrow> Inr [])
                   | None \<Rightarrow> Inr []))
          | None \<Rightarrow> Inr []))"

text \<open>
  The texts the fallback chain of the specification hands to \<^verbatim>\<open>JSON.parse\<close>: the
  whole text, the trimmed inside of the first fenced block, the bracketed substring.
\<close>

definition parseCandidates :: "string \<Rightarrow> string list" where
  "parseCandidates text =
     text # (case matchFence text of None \<Rightarrow> [] | Some inner \<Rightarrow> [trim inner])
       @ (case matchArray text of None \<Rightarrow> [] | Some arr \<Rightarrow> [arr])"

text \<open>
  A stand-in for \<^verbatim>\<open>JSON.parse\<close> on the sample texts of this theory: it agrees with
  \<^verbatim>\<open>JSON.parse\<close> on the two JSON texts it accepts and on the sample texts it rejects.
\<close>

definition sampleParse :: "string \<Rightarrow> js_error + json" where
  "sampleParse s =
     (if s = ''[{\"box_2d\":[1,2,3,4]}]''
      then Inr (JArr [JObj [(''box_2d'', JArr [JNum (Fin 1), JNum (Fin 2), JNum (Fin 3), JNum (Fin 4)])]])
      else if s = ''[]'' then Inr (JArr [])
      else Inl SyntaxError)"


subsection \<open>Coordinate mapping (extension.ts, lines 1614--1637)\<close>

record region =
  region_x :: jsnum
  region_y :: jsnum
  region_w :: jsnum
  region_h :: jsnum

text \<open>
  A detection is a parsed value of any shape (\<^verbatim>\<open>detections: any[]\<close>). The guard of
  line 1615 reads its \<^verbatim>\<open>box_2d\<close> for truthiness and for a \<^verbatim>\<open>length\<close> that is the
  number 4; line 1621 destructures it, which works on an array and on a string and
  throws on any other value.
\<close>

definition falsy :: "json \<Rightarrow> bool" where
  "falsy v =
     (case v of
        JNull \<Rightarrow> True
      | JBool b \<Rightarrow> \<not> b
      | JNum n \<Rightarrow> n = Fin 0 \<or> n = NaN
      | JStr s \<Rightarrow> s = []
      | _ \<Rightarrow> False)"

definition hasLength4 :: "json \<Rightarrow> bool" where
  "hasLength4 v =
     (case v of
        JStr s \<Rightarrow> length s = 4
      | JArr xs \<Rightarrow> length xs = 4
      | JObj members \<Rightarrow> getProperty members ''length'' = Some (JNum (Fin 4))
      | _ \<Rightarrow> False)"

definition destructure :: "json \<Rightarrow> js_error + json list" where
  "destructure v =
     (case v of
        JArr xs \<Rightarrow> Inr xs
      | JStr s \<Rightarrow> Inr (map (\<lambda>c. JStr [c]) s)
      | _ \<Rightarrow> Inl TypeError)"

text \<open>
  The conversion an arithmetic operator applies to its operand. The argument
  \<open>coerce\<close> is the conversion of strings, arrays and objects, which may throw.
\<close>

definition ToNumber :: "(json \<Rightarrow> js_error + jsnum) \<Rightarrow> json \<Rightarrow> js_error + jsnum" where
  "ToNumber coerce v =
     (case v of
        JNull \<Rightarrow> Inr (Fin 0)
      | JBool b \<Rightarrow> Inr (Fin (if b then 1 else 0))
      | JNum n \<Rightarrow> Inr n
      | _ \<Rightarrow> coerce v)"

text \<open>\<^verbatim>\<open>Math.round((v / 1000) * extent)\<close>, the expression of lines 1623--1626.\<close>

definition scaleRound :: "jsnum \<Rightarrow> jsnum \<Rightarrow> jsnum" where
  "scaleRound v extent = Math_round (num_mul (num_div_by v 1000) extent)"

text \<open>Lines 1623--1632: scaling, rounding and clamping of one box.\<close>

definition pixelRect :: "int \<Rightarrow> int \<Rightarrow> jsnum \<Rightarrow> jsnum \<Rightarrow> jsnum \<Rightarrow> jsnum \<Rightarrow> region" where
  "pixelRect imageWidth imageHeight ymin xmin ymax xmax =
     (let width = num_of_int imageWidth;
          height = num_of_int imageHeight;
          x = scaleRound xmin width;
          y = scaleRound ymin height;
          w = scaleRound (num_sub xmax xmin) width;
          h = scaleRound (num_sub ymax ymin) height;
          x = Math_max (Fin 0) (Math_min x (num_sub width (Fin 1)));
          y = Math_max (Fin 0) (Math_min y (num_sub height (Fin 1)));
          w = Math_min w (num_sub width x);
          h = Math_min h (num_sub height y)
      in \<lparr>region_x = x, region_y = y, region_w = w, region_h = h\<rparr>)"

text \<open>
  The two clamped values of one axis, named for the proofs: the start of lines 1629
  and 1630, the extent of lines 1631 and 1632. \<^const>\<open>pixelRect\<close> is made of them (lemma
  \<open>pixelRect_axes\<close>).
\<close>

definition clampStart :: "jsnum \<Rightarrow> jsnum \<Rightarrow> jsnum" where
  "clampStart extent lo = Math_max (Fin 0) (Math_min (scaleRound lo extent) (num_sub extent (Fin 1)))"

definition clampExtent :: "jsnum \<Rightarrow> jsnum \<Rightarrow> jsnum \<Rightarrow> jsnum" where
  "clampExtent extent lo hi =
     Math_min (scaleRound (num_sub hi lo) extent) (num_sub extent (clampStart extent lo))"

text \<open>What \<^verbatim>\<open>Math.round\<close> returns on a number other than NaN: an integer or an infinity.\<close>

definition roundedValue :: "jsnum \<Rightarrow> bool" where
  "roundedValue v \<longleftrightarrow> v = PosInf \<or> v = NegInf \<or> (\<exists>k. v = Fin (of_int k))"

text \<open>
  Lines 1613--1637, one detection: \<^const>\<open>Inl\<close> is an exception (a null detection, a
  box that cannot be destructured, a conversion that throws), \<open>Inr None\<close> a detection
  the loop skips with \<^verbatim>\<open>continue\<close>, \<open>Inr (Some r)\<close> the region handed to the blur. The
  operands are converted in the order in which the code first uses them.
\<close>

definition detectionRegion ::
  "(json \<Rightarrow> js_error + jsnum) \<Rightarrow> int \<Rightarrow> int \<Rightarrow> json \<Rightarrow> js_error + region option" where
  "detectionRegion coerce imageWidth imageHeight detection =
     (if detection = JNull then Inl TypeError
      else
        (case box_2d_of detection of
           None \<Rightarrow> Inr None
         | Some box \<Rightarrow>
             if falsy box \<or> \<not> hasLength4 box then Inr None
             else
               (case destructure box of
                  Inl e \<Rightarrow> Inl e
                | Inr [ymin, xmin, ymax, xmax] \<Rightarrow>
                    (case ToNumber coerce xmin of
                       Inl e \<Rightarrow> Inl e
                     | Inr xminN \<Rightarrow>
                        (case ToNumber coerce ymin of
                           Inl e \<Rightarrow> Inl e
                         | Inr yminN \<Rightarrow>
                            (case ToNumber coerce xmax of
                               Inl e \<Rightarrow> Inl e
                             | Inr xmaxN \<Rightarrow>
                                (case ToNumber coerce ymax of
                                   Inl e \<Rightarrow> Inl e
                                 | Inr ymaxN \<Rightarrow>
                                    (let r = pixelRect imageWidth imageHeight yminN xminN ymaxN xmaxN
                                     in if num_le (region_w r) (Fin 0) \<or> num_le (region_h r) (Fin 0)
                                        then Inr None else Inr (Some r))))))
                | Inr _ \<Rightarrow> Inr None)))"

text \<open>
  The mapping in the words of the specification (section 4.3), on integers: the
  rounding to the nearest integer as a relation (a tie goes up), the clamp, and the
  region built from the four rounded values.
\<close>

definition spec_round :: "rat \<Rightarrow> int \<Rightarrow> bool" where
  "spec_round v k \<longleftrightarrow> of_int k - 1 / 2 \<le> v \<and> v < of_int k + 1 / 2"

definition spec_clamp :: "int \<Rightarrow> int \<Rightarrow> int \<Rightarrow> int" where
  "spec_clamp v lo hi = (if v < lo then lo else if hi < v then hi else v)"

definition spec_pixelRegion :: "int \<Rightarrow> int \<Rightarrow> int \<Rightarrow> int \<Rightarrow> int \<Rightarrow> int \<Rightarrow> region" where
  "spec_pixelRegion imageWidth imageHeight x0 y0 width0 height0 =
     (let x = spec_clamp x0 0 (imageWidth - 1);
          y = spec_clamp y0 0 (imageHeight - 1)
      in \<lparr>region_x = Fin (of_int x), region_y = Fin (of_int y),
          region_w = Fin (of_int (min width0 (imageWidth - x))),
          region_h = Fin (of_int (min height0 (imageHeight - y)))\<rparr>)"

subsection \<open>The file system\<close>

type_synonym bytes = "nat list"

type_synonym filesystem = "string \<Rightarrow> bytes option"

definition existsSync :: "filesystem \<Rightarrow> string \<Rightarrow> bool" where
  "existsSync fs p = (fs p \<noteq> None)"

definition copyFileSync :: "filesystem \<Rightarrow> string \<Rightarrow> string \<Rightarrow> js_error + filesystem" where
  "copyFileSync fs src dest =
     (case fs src of None \<Rightarrow> Inl ENOENT | Some content \<Rightarrow> Inr (fs(dest \<mapsto> content)))"

definition unlinkSync :: "filesystem \<Rightarrow> string \<Rightarrow> js_error + filesystem" where
  "unlinkSync fs p = (case fs p of None \<Rightarrow> Inl ENOENT | Some _ \<Rightarrow> Inr (fs(p := None)))"

subsection \<open>Node's path module and the Jimp codec, as parameters\<close>

record path_api =
  path_extname :: "string \<Rightarrow> string"
  path_basename :: "string \<Rightarrow> string \<Rightarrow> string"
  path_dirname :: "string \<Rightarrow> string"
  path_join :: "string \<Rightarrow> string \<Rightarrow> string"

text \<open>
  The image library: decoding the bytes of a file (\<^verbatim>\<open>Jimp.read\<close>), the dimensions,
  \<^verbatim>\<open>crop\<close>, \<^verbatim>\<open>blur\<close>, \<^verbatim>\<open>composite\<close>, and the encoding \<^verbatim>\<open>image.write\<close>
  chooses from the path. Each call may throw.
\<close>

record 'img jimp_api =
  jimp_decode :: "bytes \<Rightarrow> js_error + 'img"
  jimp_width :: "'img \<Rightarrow> int"
  jimp_height :: "'img \<Rightarrow> int"
  jimp_crop :: "'img \<Rightarrow> region \<Rightarrow> js_error + 'img"
  jimp_blur :: "'img \<Rightarrow> jsnum \<Rightarrow> js_error + 'img"
  jimp_composite :: "'img \<Rightarrow> 'img \<Rightarrow> jsnum \<Rightarrow> jsnum \<Rightarrow> js_error + 'img"
  jimp_encode :: "string \<Rightarrow> 'img \<Rightarrow> js_error + bytes"

text \<open>\<^verbatim>\<open>await Jimp.read(imagePath)\<close>.\<close>

definition Jimp_read :: "'img jimp_api \<Rightarrow> filesystem \<Rightarrow> string \<Rightarrow> js_error + 'img" where
  "Jimp_read J fs p = (case fs p of None \<Rightarrow> Inl ENOENT | Some content \<Rightarrow> jimp_decode J content)"

text \<open>\<^verbatim>\<open>await image.write(imagePath)\<close>.\<close>

definition image_write ::
  "'img jimp_api \<Rightarrow> filesystem \<Rightarrow> string \<Rightarrow> 'img \<Rightarrow> js_error + filesystem" where
  "image_write J fs p img =
     (case jimp_encode J p img of Inl e \<Rightarrow> Inl e | Inr content \<Rightarrow> Inr (fs(p \<mapsto> content)))"

subsection \<open>Redaction: blurRegions (extension.ts, lines 1589--1662)\<close>

text \<open>Lines 1596--1599: where the backup of an image lives.\<close>

definition backupPathOf :: "path_api \<Rightarrow> string \<Rightarrow> string" where
  "backupPathOf P imagePath =
     (let ext = path_extname P imagePath;
          baseName = path_basename P imagePath ext;
          dir = path_dirname P imagePath
      in path_join P dir (baseName @ ''_backup'' @ ext))"

text \<open>Lines 1601--1605: the backup is made only when no file stands at its path.\<close>

definition ensureBackup :: "filesystem \<Rightarrow> string \<Rightarrow> string \<Rightarrow> js_error + filesystem" where
  "ensureBackup fs imagePath backupPath =
     (if \<not> existsSync fs backupPath then copyFileSync fs imagePath backupPath else Inr fs)"

text \<open>
  Lines 1612--1648: the loop over the detections, on the decoded image and the counter
  \<^verbatim>\<open>regionsBlurred\<close>.
\<close>

fun blurLoop ::
  "'img jimp_api \<Rightarrow> (json \<Rightarrow> js_error + jsnum) \<Rightarrow> int \<Rightarrow> int \<Rightarrow> jsnum \<Rightarrow> json list \<Rightarrow> 'img \<Rightarrow> nat
     \<Rightarrow> js_error + ('img \<times> nat)" where
  "blurLoop J coerce width height blurRadius [] img regionsBlurred = Inr (img, regionsBlurred)"
| "blurLoop J coerce width height blurRadius (d # rest) img regionsBlurred =
     (case detectionRegion coerce width height d of
        Inl e \<Rightarrow> Inl e
      | Inr None \<Rightarrow> blurLoop J coerce width height blurRadius rest img regionsBlurred
      | Inr (Some r) \<Rightarrow>
         (case jimp_crop J img r of
            Inl e \<Rightarrow> Inl e
          | Inr cropped \<Rightarrow>
             (case jimp_blur J cropped blurRadius of
                Inl e \<Rightarrow> Inl e
              | Inr blurredRegion \<Rightarrow>
                 (case jimp_composite J img blurredRegion (region_x r) (region_y r) of
                    Inl e \<Rightarrow> Inl e
                  | Inr img' \<Rightarrow>
                      blurLoop J coerce width height blurRadius rest img' (Suc regionsBlurred)))))"

text \<open>
  What the user is shown at the end: the information message with the count, the
  warning \<^verbatim>\<open>No valid regions to blur.\<close>, or the error message of the \<^verbatim>\<open>catch\<close>.
\<close>

datatype blur_outcome =
    Blurred nat
  | NoValidRegions
  | BlurFailed js_error

text \<open>
  The parameters \<^verbatim>\<open>context\<close>, \<^verbatim>\<open>_width\<close> and \<^verbatim>\<open>_height\<close> are not read by the
  function; \<^verbatim>\<open>blurIntensity\<close> is the setting \<^verbatim>\<open>getConfig\<close> returns.
\<close>

definition blurRegions ::
  "path_api \<Rightarrow> 'img jimp_api \<Rightarrow> (json \<Rightarrow> js_error + jsnum) \<Rightarrow> jsnum \<Rightarrow> filesystem \<Rightarrow> string
     \<Rightarrow> json list \<Rightarrow> filesystem \<times> blur_outcome" where
  "blurRegions P J coerce blurIntensity fs imagePath detections =
     (let blurRadius = Math_min (Math_max (Math_round (num_div_by blurIntensity 2)) (Fin 1)) (Fin 100);
          backupPath = backupPathOf P imagePath
      in case ensureBackup fs imagePath backupPath of
           Inl e \<Rightarrow> (fs, BlurFailed e)
         | Inr fs1 \<Rightarrow>
            (case Jimp_read J fs1 imagePath of
               Inl e \<Rightarrow> (fs1, BlurFailed e)
             | Inr img \<Rightarrow>
                (case blurLoop J coerce (jimp_width J img) (jimp_height J img) blurRadius
                        detections img 0 of
                   Inl e \<Rightarrow> (fs1, BlurFailed e)
                 | Inr (img', regionsBlurred) \<Rightarrow>
                     if 0 < regionsBlurred
                     then (case image_write J fs1 imagePath img' of
                             Inl e \<Rightarrow> (fs1, BlurFailed e)
                           | Inr fs2 \<Rightarrow> (fs2, Blurred regionsBlurred))
                     else (fs1, NoValidRegions))))"

subsection \<open>Restore: restoreFromBackup (extension.ts, lines 1664--1696)\<close>

datatype restore_outcome =
    NoFileSelected
  | NotABackupFile
  | Restored string
  | RestoreFailed js_error

text \<open>Lines 1678--1683: the path the backup is copied to.\<close>

definition originalPathOf :: "path_api \<Rightarrow> string \<Rightarrow> string" where
  "originalPathOf P backupPath =
     (let ext = path_extname P backupPath;
          dir = path_dirname P backupPath;
          backupBaseName = path_basename P backupPath ext;
          originalBaseName = removeFirst ''_backup'' backupBaseName
      in path_join P dir (originalBaseName @ ext))"

text \<open>
  The argument is \<^verbatim>\<open>uri?.fsPath\<close>: \<^const>\<open>None\<close> when no resource was given. An empty
  path is falsy as well.
\<close>

definition restoreFromBackup ::
  "path_api \<Rightarrow> filesystem \<Rightarrow> string option \<Rightarrow> filesystem \<times> restore_outcome" where
  "restoreFromBackup P fs fsPath =
     (case fsPath of
        None \<Rightarrow> (fs, NoFileSelected)
      | Some backupPath \<Rightarrow>
          if backupPath = [] then (fs, NoFileSelected)
          else if \<not> includesStr backupPath ''_backup'' then (fs, NotABackupFile)
          else
            (let ext = path_extname P backupPath;
                 backupBaseName = path_basename P backupPath ext;
                 originalBaseName = removeFirst ''_backup'' backupBaseName;
                 originalPath = originalPathOf P backupPath
             in case copyFileSync fs backupPath originalPath of
                  Inl e \<Rightarrow> (fs, RestoreFailed e)
                | Inr fs1 \<Rightarrow>
                   (case unlinkSync fs1 backupPath of
                      Inl e \<Rightarrow> (fs1, RestoreFailed e)
                    | Inr fs2 \<Rightarrow> (fs2, Restored (originalBaseName @ ext)))))"

text \<open>
  The naming convention of the specification: the marker stands right before the
  extension, that is, at the end of the base name.
\<close>

definition followsBackupConvention :: "path_api \<Rightarrow> string \<Rightarrow> bool" where
  "followsBackupConvention P p = suffix ''_backup'' (path_basename P p (path_extname P p))"

subsection \<open>Sample libraries for the examples\<close>

text \<open>
  The POSIX flavour of Node's \<^verbatim>\<open>path\<close>: the last segment of a path with its trailing
  slashes dropped, the extension from the last dot of that segment (none when the dot
  leads the segment or the segment is \<^verbatim>\<open>..\<close>), the directory before the segment, and
  \<^verbatim>\<open>join\<close> with the normalisation of \<^verbatim>\<open>.\<close>, \<^verbatim>\<open>..\<close> and repeated slashes.
\<close>

definition lastSegment :: "string \<Rightarrow> string" where
  "lastSegment p =
     rev (takeWhile (\<lambda>c. c \<noteq> CHR ''/'') (dropWhile (\<lambda>c. c = CHR ''/'') (rev p)))"

definition posix_extname :: "string \<Rightarrow> string" where
  "posix_extname p =
     (let seg = lastSegment p;
          e = rev (takeWhile (\<lambda>c. c \<noteq> CHR ''.'') (rev seg));
          stem = take (length seg - length e - 1) seg
      in if CHR ''.'' \<in> set seg \<and> stem \<noteq> [] \<and> seg \<noteq> ''..'' then CHR ''.'' # e else [])"

definition posix_basename :: "string \<Rightarrow> string \<Rightarrow> string" where
  "posix_basename p sfx =
     (let seg = lastSegment p
      in if sfx = [] \<or> length p < length sfx then seg
         else if sfx = p then []
         else if suffix sfx seg \<and> sfx \<noteq> seg then take (length seg - length sfx) seg
         else seg)"

definition posix_dirname :: "string \<Rightarrow> string" where
  "posix_dirname p =
     (let hasRoot = prefix ''/'' p;
          r = dropWhile (\<lambda>c. c \<noteq> CHR ''/'') (dropWhile (\<lambda>c. c = CHR ''/'') (rev p))
      in case r of
           [] \<Rightarrow> (if hasRoot then ''/'' else ''.'')
         | _ # front \<Rightarrow>
             if front = [] then ''/''
             else if hasRoot \<and> length front = 1 then ''//''
             else rev front)"

fun splitSlash :: "string \<Rightarrow> string list" where
  "splitSlash [] = [[]]"
| "splitSlash (c # cs) =
     (if c = CHR ''/'' then [] # splitSlash cs
      else (case splitSlash cs of [] \<Rightarrow> [[c]] | s # ss \<Rightarrow> (c # s) # ss))"

fun normalizeSegments :: "bool \<Rightarrow> string list \<Rightarrow> string list \<Rightarrow> string list" where
  "normalizeSegments allowAboveRoot [] kept = rev kept"
| "normalizeSegments allowAboveRoot (s # ss) kept =
     (if s = [] \<or> s = ''.'' then normalizeSegments allowAboveRoot ss kept
      else if s = ''..'' then
        (case kept of
           [] \<Rightarrow> normalizeSegments allowAboveRoot ss (if allowAboveRoot then [''..''] else [])
         | t # ts \<Rightarrow>
             if t = ''..'' then normalizeSegments allowAboveRoot ss (s # kept)
             else normalizeSegments allowAboveRoot ss ts)
      else normalizeSegments allowAboveRoot ss (s # kept))"

fun joinSlash :: "string list \<Rightarrow> string" where
  "joinSlash [] = []"
| "joinSlash [s] = s"
| "joinSlash (s # t # ss) = s @ ''/'' @ joinSlash (t # ss)"

definition posix_normalize :: "string \<Rightarrow> string" where
  "posix_normalize p =
     (if p = [] then ''.''
      else
        (let isAbsolute = prefix ''/'' p;
             trailingSeparator = suffix ''/'' p;
             q = joinSlash (normalizeSegments (\<not> isAbsolute) (splitSlash p) [])
         in if q = [] then (if isAbsolute then ''/'' else if trailingSeparator then ''./'' else ''.'')
            else (if isAbsolute then ''/'' else []) @ q @ (if trailingSeparator then ''/'' else [])))"

definition posix_join :: "string \<Rightarrow> string \<Rightarrow> string" where
  "posix_join a b =
     (let joined = (if a = [] then b else if b = [] then a else a @ ''/'' @ b)
      in if joined = [] then ''.'' else posix_normalize joined)"

definition posix :: path_api where
  "posix = \<lparr>path_extname = posix_extname, path_basename = posix_basename,
             path_dirname = posix_dirname, path_join = posix_join\<rparr>"

text \<open>
  A small codec for the examples: a file holds the width, the height and the grey
  values of the pixels row by row; the stand-in for the blur replaces every pixel of
  the cropped part by the mean of the part.
\<close>

record bitmap =
  bm_width :: nat
  bm_height :: nat
  bm_pixels :: "nat list"

definition bm_decode :: "bytes \<Rightarrow> js_error + bitmap" where
  "bm_decode content =
     (case content of
        w # h # pixels \<Rightarrow>
          if 0 < w \<and> 0 < h \<and> length pixels = w * h
          then Inr \<lparr>bm_width = w, bm_height = h, bm_pixels = pixels\<rparr>
          else Inl ImageError
      | _ \<Rightarrow> Inl ImageError)"

definition bm_pixel :: "bitmap \<Rightarrow> nat \<Rightarrow> nat \<Rightarrow> nat" where
  "bm_pixel b i j = (if i < bm_width b \<and> j < bm_height b then bm_pixels b ! (j * bm_width b + i) else 0)"

text \<open>A number that is a natural number; the codec refuses every other coordinate.\<close>

definition num_to_nat :: "jsnum \<Rightarrow> nat option" where
  "num_to_nat v =
     (case v of
        Fin q \<Rightarrow> if 0 \<le> q \<and> of_int \<lfloor>q\<rfloor> = q then Some (nat \<lfloor>q\<rfloor>) else None
      | _ \<Rightarrow> None)"

definition bm_crop :: "bitmap \<Rightarrow> region \<Rightarrow> js_error + bitmap" where
  "bm_crop b r =
     (case (num_to_nat (region_x r), num_to_nat (region_y r),
            num_to_nat (region_w r), num_to_nat (region_h r)) of
        (Some x, Some y, Some w, Some h) \<Rightarrow>
          if 0 < w \<and> 0 < h \<and> x + w \<le> bm_width b \<and> y + h \<le> bm_height b
          then Inr \<lparr>bm_width = w, bm_height = h,
                    bm_pixels = concat (map (\<lambda>j. map (\<lambda>i. bm_pixel b (x + i) (y + j)) [0 ..< w])
                                         [0 ..< h])\<rparr>
          else Inl ImageError
      | _ \<Rightarrow> Inl ImageError)"

definition bm_blur :: "bitmap \<Rightarrow> jsnum \<Rightarrow> js_error + bitmap" where
  "bm_blur b radius =
     (if num_le (Fin 1) radius \<and> bm_pixels b \<noteq> []
      then Inr (b\<lparr>bm_pixels := map (\<lambda>_. sum_list (bm_pixels b) div length (bm_pixels b)) (bm_pixels b)\<rparr>)
      else Inl ImageError)"

definition bm_composite :: "bitmap \<Rightarrow> bitmap \<Rightarrow> jsnum \<Rightarrow> jsnum \<Rightarrow> js_error + bitmap" where
  "bm_composite b over x y =
     (case (num_to_nat x, num_to_nat y) of
        (Some x0, Some y0) \<Rightarrow>
          Inr (b\<lparr>bm_pixels :=
            concat (map (\<lambda>j. map (\<lambda>i.
                if x0 \<le> i \<and> i < x0 + bm_width over \<and> y0 \<le> j \<and> j < y0 + bm_height over
                then bm_pixel over (i - x0) (j - y0) else bm_pixel b i j)
              [0 ..< bm_width b]) [0 ..< bm_height b])\<rparr>)
      | _ \<Rightarrow> Inl ImageError)"

definition bm_encode :: "string \<Rightarrow> bitmap \<Rightarrow> js_error + bytes" where
  "bm_encode p b = Inr (bm_width b # bm_height b # bm_pixels b)"

definition sampleJimp :: "bitmap jimp_api" where
  "sampleJimp = \<lparr>jimp_decode = bm_decode, jimp_width = (\<lambda>b. int (bm_width b)),
                 jimp_height = (\<lambda>b. int (bm_height b)), jimp_crop = bm_crop, jimp_blur = bm_blur,
                 jimp_composite = bm_composite, jimp_encode = bm_encode\<rparr>"

text \<open>
  A stand-in for the conversion of strings, arrays and objects to numbers: the
  examples hold boxes of numbers, on which it is not called.
\<close>

definition sampleCoerce :: "json \<Rightarrow> js_error + jsnum" where
  "sampleCoerce v = Inr NaN"

text \<open>A detection with a box of four finite numbers, as the examples write it.\<close>

definition boxOf :: "rat \<Rightarrow> rat \<Rightarrow> rat \<Rightarrow> rat \<Rightarrow> json" where
  "boxOf ymin xmin ymax xmax =
     JObj [(''box_2d'', JArr [JNum (Fin ymin), JNum (Fin xmin), JNum (Fin ymax), JNum (Fin xmax)])]"

text \<open>The files of the examples: one image of two by two pixels.\<close>

definition sampleFiles :: filesystem where
  "sampleFiles = [''/img/p.png'' \<mapsto> [2, 2, 10, 20, 30, 40]]"

section \<open>Properties\<close>

subsection \<open>Rounding to a double\<close>

lemma pow2_pos: "0 < pow2 e"
  by (simp add: pow2_def)

lemma pow2_mono: "a \<le> b \<Longrightarrow> pow2 a \<le> pow2 b"
  by (simp add: pow2_def power_int_increasing)

lemma pow2_nat: "0 \<le> e \<Longrightarrow> pow2 e = 2 ^ nat e"
  by (simp add: pow2_def power_int_nonneg_exp)

lemma pow2_neg: "e \<le> 0 \<Longrightarrow> pow2 e = 1 / 2 ^ nat (- e)"
  by (simp add: pow2_def power_int_def field_simps)

lemma roundHalfEven_of_int: "roundHalfEven (of_int k) = k"
  by (simp add: roundHalfEven_def)

lemma roundHalfEven_nonneg: "0 \<le> x \<Longrightarrow> 0 \<le> roundHalfEven x"
proof -
  assume "0 \<le> x"
  then have "0 \<le> \<lfloor>x\<rfloor>" by simp
  then show ?thesis by (simp add: roundHalfEven_def Let_def)
qed

text \<open>The exponent is not above the binary logarithm.\<close>

lemma ilog2_le:
  assumes "0 < q"
  shows "pow2 (ilog2 q) \<le> q"
proof -
  obtain a b where ab: "quotient_of q = (a, b)" by (cases "quotient_of q")
  then have b: "0 < b" and q: "q = of_int a / of_int b"
    by (simp_all add: quotient_of_denom_pos quotient_of_div)
  from assms q b have a: "0 < a"
    by (simp add: zero_less_divide_iff)
  let ?k = "bitlen a - bitlen b"
  show ?thesis
  proof (cases "pow2 ?k \<le> q")
    case True
    with ab show ?thesis by (simp add: ilog2_def)
  next
    case False
    with ab have e: "ilog2 q = ?k - 1" by (simp add: ilog2_def)
    from bitlen_bounds [OF a] have la: "2 ^ nat (bitlen a - 1) \<le> a" by simp
    from bitlen_bounds [OF b] have lb: "b < 2 ^ nat (bitlen b)" by simp
    from a have la1: "1 \<le> bitlen a"
      using bitlen_eq_zero_iff [of a] bitlen_nonneg [of a] by linarith
    have "pow2 (?k - 1) = pow2 (bitlen a - 1) / pow2 (bitlen b)"
      unfolding pow2_def by (simp add: power_int_diff)
    also have "\<dots> = 2 ^ nat (bitlen a - 1) / 2 ^ nat (bitlen b)"
      using la1 bitlen_nonneg [of b] by (simp add: pow2_nat)
    also have "\<dots> \<le> of_int a / of_int b"
    proof -
      from la have "rat_of_int (2 ^ nat (bitlen a - 1)) \<le> of_int a"
        by (rule of_int_le_iff [THEN iffD2])
      then have num: "(2::rat) ^ nat (bitlen a - 1) \<le> of_int a" by simp
      from lb have "rat_of_int b \<le> of_int (2 ^ nat (bitlen b))"
        by (simp del: of_int_power)
      then have den: "rat_of_int b \<le> 2 ^ nat (bitlen b)" by simp
      from a b num den show ?thesis
        by (intro frac_le) simp_all
    qed
    finally show ?thesis using e q by simp
  qed
qed

text \<open>An integer of at most 53 bits is a double: rounding keeps it.\<close>

lemma toDoublePos_of_int:
  assumes "0 < n" and "n \<le> 2 ^ 53"
  shows "toDoublePos (of_int n) = Fin (of_int n)"
proof -
  let ?q = "rat_of_int n"
  let ?e = "max (ilog2 ?q) (- 1022)"
  from assms(1) have qpos: "0 < ?q" by simp
  have low: "pow2 (ilog2 ?q) \<le> ?q" using qpos by (rule ilog2_le)
  also have "?q \<le> pow2 53"
    using assms(2) by (simp add: pow2_nat of_int_le_iff [of n "2 ^ 53", symmetric] del: of_int_le_iff)
  finally have "pow2 (ilog2 ?q) \<le> pow2 53" .
  then have le53: "ilog2 ?q \<le> 53"
  proof -
    have "pow2 53 < pow2 54" by (simp add: pow2_def)
    moreover have "pow2 54 \<le> pow2 (ilog2 ?q)" if "54 \<le> ilog2 ?q"
      using that by (rule pow2_mono)
    ultimately show ?thesis
      using \<open>pow2 (ilog2 ?q) \<le> pow2 53\<close> by fastforce
  qed
  define quantum where "quantum = pow2 (?e - 52)"
  have exact: "of_int (roundHalfEven (?q / quantum)) * quantum = ?q"
  proof (cases "?e \<le> 52")
    case True
    then have p: "quantum = 1 / 2 ^ nat (52 - ?e)"
      unfolding quantum_def by (simp add: pow2_neg)
    have "?q / quantum = of_int (n * 2 ^ nat (52 - ?e))"
      by (simp add: p)
    then have "roundHalfEven (?q / quantum) = n * 2 ^ nat (52 - ?e)"
      by (simp only: roundHalfEven_of_int)
    then show ?thesis by (simp add: p)
  next
    case False
    with le53 have e: "?e = 53" and e0: "ilog2 ?q = 53" by simp_all
    from e have p: "quantum = 2"
      unfolding quantum_def by (simp add: pow2_nat)
    from low e0 have "2 ^ 53 \<le> ?q"
      by (simp add: pow2_nat)
    then have "2 ^ 53 \<le> n"
      by (simp add: of_int_le_iff [of "2 ^ 53" n, symmetric] del: of_int_le_iff)
    with assms(2) have n: "n = 2 ^ 53" by simp
    have "?q / quantum = of_int (2 ^ 52)"
      by (simp add: p n)
    then have "roundHalfEven (?q / quantum) = 2 ^ 52"
      by (simp only: roundHalfEven_of_int)
    then show ?thesis by (simp add: p n)
  qed
  from le53 have "?e \<le> 53" by simp
  then have "\<not> (1024 \<le> ?e \<or> (?e = 1023 \<and> roundHalfEven (?q / quantum) = 2 ^ 53))"
    by linarith
  with exact show ?thesis
    by (simp add: toDoublePos_def Let_def quantum_def)
qed

lemma num_of_int_exact:
  assumes "0 \<le> n" and "n \<le> 2 ^ 53"
  shows "num_of_int n = Fin (of_int n)"
proof (cases "n = 0")
  case True
  then show ?thesis by (simp add: num_of_int_def toDouble_def)
next
  case False
  with assms have "0 < n" by simp
  then show ?thesis
    using toDoublePos_of_int [OF _ assms(2)] by (simp add: num_of_int_def toDouble_def)
qed

lemma toDoublePos_cases:
  "toDoublePos q = PosInf
   \<or> toDoublePos q = Fin (of_int (roundHalfEven (q / pow2 (max (ilog2 q) (- 1022) - 52)))
                        * pow2 (max (ilog2 q) (- 1022) - 52))"
  by (simp add: toDoublePos_def Let_def)

lemma toDoublePos_sign: "0 < q \<Longrightarrow> toDoublePos q = PosInf \<or> (\<exists>r. toDoublePos q = Fin r \<and> 0 \<le> r)"
proof -
  assume q: "0 < q"
  let ?u = "pow2 (max (ilog2 q) (- 1022) - 52)"
  have "0 \<le> q / ?u" using q pow2_pos [of "max (ilog2 q) (- 1022) - 52"] by simp
  then have "0 \<le> roundHalfEven (q / ?u)" by (rule roundHalfEven_nonneg)
  then have "0 \<le> rat_of_int (roundHalfEven (q / ?u)) * ?u"
    using pow2_pos [of "max (ilog2 q) (- 1022) - 52"] by simp
  with toDoublePos_cases [of q] show ?thesis by auto
qed

lemma toDouble_not_NaN: "toDouble q \<noteq> NaN"
  using toDoublePos_cases [of q] toDoublePos_cases [of "- q"]
  by (auto simp: toDouble_def)

lemma toDouble_nonneg: "0 \<le> q \<Longrightarrow> num_le (Fin 0) (toDouble q)"
  using toDoublePos_sign [of q] by (auto simp: toDouble_def)

lemma toDouble_nonpos: "q \<le> 0 \<Longrightarrow> num_le (toDouble q) (Fin 0)"
  using toDoublePos_sign [of "- q"] by (auto simp: toDouble_def)


subsection \<open>Arithmetic on numbers\<close>

lemma num_sub_ints:
  "0 \<le> a - b \<Longrightarrow> a - b \<le> 2 ^ 53 \<Longrightarrow>
     num_sub (Fin (of_int a)) (Fin (of_int b)) = Fin (of_int (a - b))"
  using num_of_int_exact [of "a - b"] by (simp add: num_of_int_def)

lemma num_sub_Fin_not_NaN: "num_sub (Fin a) (Fin b) \<noteq> NaN"
  by (simp add: toDouble_not_NaN)

lemma num_div_by_not_NaN: "v \<noteq> NaN \<Longrightarrow> num_div_by v d \<noteq> NaN"
  by (cases v) (simp_all add: toDouble_not_NaN)

lemma num_mul_pos_not_NaN: "v \<noteq> NaN \<Longrightarrow> 0 < w \<Longrightarrow> num_mul v (Fin w) \<noteq> NaN"
  by (cases v) (simp_all add: toDouble_not_NaN)

lemma Math_round_rounded: "v \<noteq> NaN \<Longrightarrow> roundedValue (Math_round v)"
  by (cases v) (auto simp: roundedValue_def)

lemma Math_min_Fin: "Math_min (Fin a) (Fin b) = Fin (min a b)"
  by (simp add: Math_min_def min_def)

lemma Math_max_Fin: "Math_max (Fin a) (Fin b) = Fin (max a b)"
  by (simp add: Math_max_def max_def)

lemma nonpos_iff: "num_le v (Fin 0) \<longleftrightarrow> v = NegInf \<or> (\<exists>r. v = Fin r \<and> r \<le> 0)"
  by (cases v) simp_all

lemma scaleRound_rounded:
  assumes "v \<noteq> NaN" and "0 < W" and "W \<le> 2 ^ 53"
  shows "roundedValue (scaleRound v (num_of_int W))"
proof -
  from assms(2,3) have w: "num_of_int W = Fin (of_int W)"
    by (simp add: num_of_int_exact)
  from assms(1) have "num_div_by v 1000 \<noteq> NaN" by (rule num_div_by_not_NaN)
  then have "num_mul (num_div_by v 1000) (Fin (of_int W)) \<noteq> NaN"
    using assms(2) by (simp add: num_mul_pos_not_NaN)
  then show ?thesis
    unfolding scaleRound_def w by (rule Math_round_rounded)
qed

lemma num_div_by_nonpos: "num_le v (Fin 0) \<Longrightarrow> num_le (num_div_by v 1000) (Fin 0)"
proof (cases v)
  case (Fin r)
  assume "num_le v (Fin 0)"
  with Fin have "r / 1000 \<le> 0" by simp
  then have "num_le (toDouble (r / 1000)) (Fin 0)" by (rule toDouble_nonpos)
  with Fin show ?thesis by simp
qed simp_all

lemma num_mul_nonpos: "num_le v (Fin 0) \<Longrightarrow> 0 < w \<Longrightarrow> num_le (num_mul v (Fin w)) (Fin 0)"
proof (cases v)
  case (Fin r)
  assume "num_le v (Fin 0)" and "0 < w"
  with Fin have "r * w \<le> 0" by (simp add: mult_le_0_iff)
  then have "num_le (toDouble (r * w)) (Fin 0)" by (rule toDouble_nonpos)
  with Fin show ?thesis by simp
qed simp_all

lemma Math_round_nonpos: "num_le v (Fin 0) \<Longrightarrow> num_le (Math_round v) (Fin 0)"
proof (cases v)
  case (Fin r)
  assume "num_le v (Fin 0)"
  with Fin have "r \<le> 0" by simp
  then have "\<lfloor>r + 1 / 2\<rfloor> \<le> 0"
    unfolding floor_le_zero by linarith
  with Fin show ?thesis by simp
qed simp_all

lemma scaleRound_nonpos:
  assumes "num_le v (Fin 0)" and "0 < W" and "W \<le> 2 ^ 53"
  shows "num_le (scaleRound v (num_of_int W)) (Fin 0)"
proof -
  from assms(2,3) have w: "num_of_int W = Fin (of_int W)"
    by (simp add: num_of_int_exact)
  from assms(1) have "num_le (num_div_by v 1000) (Fin 0)"
    by (rule num_div_by_nonpos)
  then have "num_le (num_mul (num_div_by v 1000) (Fin (of_int W))) (Fin 0)"
    using assms(2) by (simp add: num_mul_nonpos)
  then have "num_le (Math_round (num_mul (num_div_by v 1000) (Fin (of_int W)))) (Fin 0)"
    by (rule Math_round_nonpos)
  then show ?thesis by (simp add: scaleRound_def w)
qed

subsection \<open>The clamped rectangle\<close>

lemma pixelRect_axes:
  "pixelRect W H ymin xmin ymax xmax =
     \<lparr>region_x = clampStart (num_of_int W) xmin, region_y = clampStart (num_of_int H) ymin,
      region_w = clampExtent (num_of_int W) xmin xmax,
      region_h = clampExtent (num_of_int H) ymin ymax\<rparr>"
  by (simp add: pixelRect_def clampStart_def clampExtent_def Let_def)

lemma last_index:
  assumes "0 < W" and "W \<le> 2 ^ 53"
  shows "num_sub (num_of_int W) (Fin 1) = Fin (of_int (W - 1))"
proof -
  from assms have w: "num_of_int W = Fin (of_int W)"
    by (simp add: num_of_int_exact)
  have "num_sub (Fin (of_int W)) (Fin (of_int 1)) = Fin (of_int (W - 1))"
    using assms by (intro num_sub_ints) simp_all
  then show ?thesis by (simp add: w)
qed

lemma clampStart_rounded:
  assumes "0 < W" and "W \<le> 2 ^ 53" and "roundedValue (scaleRound lo (num_of_int W))"
  shows "\<exists>k. clampStart (num_of_int W) lo = Fin (of_int k) \<and> 0 \<le> k \<and> k < W"
proof -
  have start: "clampStart (num_of_int W) lo
      = Math_max (Fin 0) (Math_min (scaleRound lo (num_of_int W)) (Fin (of_int (W - 1))))"
    unfolding clampStart_def last_index [OF assms(1,2)] ..
  from assms(3) consider "scaleRound lo (num_of_int W) = PosInf"
    | "scaleRound lo (num_of_int W) = NegInf"
    | k where "scaleRound lo (num_of_int W) = Fin (of_int k)"
    unfolding roundedValue_def by blast
  then show ?thesis
  proof cases
    case 1
    have "num_le (Fin 0) (Fin (rat_of_int (W - 1)))"
      using assms(1) of_int_le_iff [of 0 "W - 1", where ?'a = rat] by simp
    then have "clampStart (num_of_int W) lo = Fin (of_int (W - 1))"
      unfolding start 1 by (simp add: Math_min_def Math_max_def del: of_int_diff)
    moreover from assms(1) have "0 \<le> W - 1" "W - 1 < W" by simp_all
    ultimately show ?thesis by blast
  next
    case 2
    then have "clampStart (num_of_int W) lo = Fin (of_int 0)"
      unfolding start by (simp add: Math_min_def Math_max_def)
    with assms(1) show ?thesis by blast
  next
    case (3 k)
    then have "clampStart (num_of_int W) lo = Fin (of_int (max 0 (min k (W - 1))))"
      unfolding start by (simp add: Math_min_Fin Math_max_Fin del: of_int_diff)
    moreover from assms(1) have "0 \<le> max 0 (min k (W - 1))" "max 0 (min k (W - 1)) < W"
      by simp_all
    ultimately show ?thesis by blast
  qed
qed

lemma clampStart_exact:
  assumes "0 < W" and "W \<le> 2 ^ 53" and "scaleRound lo (num_of_int W) = Fin (of_int x0)"
  shows "clampStart (num_of_int W) lo = Fin (of_int (spec_clamp x0 0 (W - 1)))"
proof -
  have start: "clampStart (num_of_int W) lo
      = Math_max (Fin 0) (Math_min (scaleRound lo (num_of_int W)) (Fin (of_int (W - 1))))"
    unfolding clampStart_def last_index [OF assms(1,2)] ..
  from assms(1) have "max 0 (min x0 (W - 1)) = spec_clamp x0 0 (W - 1)"
    by (simp add: spec_clamp_def)
  then show ?thesis
    unfolding start assms(3) by (simp add: Math_min_Fin Math_max_Fin del: of_int_diff)
qed

lemma remaining_exact:
  assumes "W \<le> 2 ^ 53" and "0 \<le> k" and "k < W"
  shows "num_sub (num_of_int W) (Fin (of_int k)) = Fin (of_int (W - k))"
proof -
  from assms have w: "num_of_int W = Fin (of_int W)"
    by (simp add: num_of_int_exact)
  have "num_sub (Fin (of_int W)) (Fin (of_int k)) = Fin (of_int (W - k))"
    using assms by (intro num_sub_ints) simp_all
  then show ?thesis by (simp only: w)
qed

lemma clampExtent_rounded:
  assumes "W \<le> 2 ^ 53" and "clampStart (num_of_int W) lo = Fin (of_int k)"
    and "0 \<le> k" and "k < W"
    and "roundedValue (scaleRound (num_sub hi lo) (num_of_int W))"
  shows "(num_le (clampExtent (num_of_int W) lo hi) (Fin 0)
            \<longleftrightarrow> \<not> num_le (Fin 1) (scaleRound (num_sub hi lo) (num_of_int W)))
       \<and> (num_le (Fin 1) (scaleRound (num_sub hi lo) (num_of_int W)) \<longrightarrow>
            (\<exists>j. clampExtent (num_of_int W) lo hi = Fin (of_int j) \<and> 0 < j \<and> k + j \<le> W))"
proof -
  let ?w0 = "scaleRound (num_sub hi lo) (num_of_int W)"
  have rest: "num_sub (num_of_int W) (Fin (of_int k)) = Fin (of_int (W - k))"
    using assms(1,3,4) by (rule remaining_exact)
  have ext: "clampExtent (num_of_int W) lo hi = Math_min ?w0 (Fin (of_int (W - k)))"
    unfolding clampExtent_def assms(2) rest ..
  from assms(5) consider "?w0 = PosInf" | "?w0 = NegInf" | j where "?w0 = Fin (of_int j)"
    unfolding roundedValue_def by blast
  then show ?thesis
  proof cases
    case 1
    have e: "clampExtent (num_of_int W) lo hi = Fin (of_int (W - k))"
      unfolding ext 1 by (simp add: Math_min_def)
    have one: "num_le (Fin 1) ?w0" unfolding 1 by simp
    have "\<not> rat_of_int (W - k) \<le> 0"
      using assms(4) of_int_le_iff [of "W - k" 0, where ?'a = rat] by simp
    then have zero: "\<not> num_le (clampExtent (num_of_int W) lo hi) (Fin 0)"
      unfolding e by simp
    from assms(4) have "0 < W - k \<and> k + (W - k) \<le> W" by simp
    with one zero e show ?thesis by blast
  next
    case 2
    have "clampExtent (num_of_int W) lo hi = NegInf"
      unfolding ext 2 by (simp add: Math_min_def)
    moreover have "\<not> num_le (Fin 1) ?w0" unfolding 2 by simp
    ultimately show ?thesis by simp
  next
    case (3 j)
    have e: "clampExtent (num_of_int W) lo hi = Fin (of_int (min j (W - k)))"
      unfolding ext 3 by (simp add: Math_min_Fin del: of_int_diff)
    have one: "num_le (Fin 1) ?w0 \<longleftrightarrow> 1 \<le> j"
      unfolding 3 using of_int_le_iff [of 1 j, where ?'a = rat] by simp
    have zero: "num_le (clampExtent (num_of_int W) lo hi) (Fin 0) \<longleftrightarrow> min j (W - k) \<le> 0"
      unfolding e using of_int_le_iff [of "min j (W - k)" 0, where ?'a = rat] by simp
    from assms(4) have "min j (W - k) \<le> 0 \<longleftrightarrow> \<not> 1 \<le> j" by auto
    moreover have "0 < min j (W - k) \<and> k + min j (W - k) \<le> W" if "1 \<le> j"
      using that assms(4) by auto
    ultimately show ?thesis using one zero e by blast
  qed
qed

lemma clampExtent_exact:
  assumes "0 < W" and "W \<le> 2 ^ 53"
    and "scaleRound lo (num_of_int W) = Fin (of_int x0)"
    and "scaleRound (num_sub hi lo) (num_of_int W) = Fin (of_int w0)"
  shows "clampExtent (num_of_int W) lo hi
           = Fin (of_int (min w0 (W - spec_clamp x0 0 (W - 1))))"
proof -
  let ?k = "spec_clamp x0 0 (W - 1)"
  have start: "clampStart (num_of_int W) lo = Fin (of_int ?k)"
    using assms(1,2,3) by (rule clampStart_exact)
  from assms(1) have k: "0 \<le> ?k" "?k < W"
    by (simp_all add: spec_clamp_def)
  have rest: "num_sub (num_of_int W) (Fin (of_int ?k)) = Fin (of_int (W - ?k))"
    using assms(2) k by (rule remaining_exact)
  show ?thesis
    unfolding clampExtent_def start rest assms(4)
    by (simp add: Math_min_Fin del: of_int_diff)
qed

text \<open>An extent that is not positive before the cut stays so.\<close>

lemma clampExtent_nonpos:
  assumes "0 < W" and "W \<le> 2 ^ 53" and "lo \<noteq> NaN"
    and "num_le (scaleRound (num_sub hi lo) (num_of_int W)) (Fin 0)"
  shows "num_le (clampExtent (num_of_int W) lo hi) (Fin 0)"
proof -
  have "roundedValue (scaleRound lo (num_of_int W))"
    using assms(3,1,2) by (rule scaleRound_rounded)
  with assms(1,2) obtain k where start: "clampStart (num_of_int W) lo = Fin (of_int k)"
    and k: "0 \<le> k" "k < W"
    using clampStart_rounded by blast
  have rest: "num_sub (num_of_int W) (Fin (of_int k)) = Fin (of_int (W - k))"
    using assms(2) k by (rule remaining_exact)
  have "clampExtent (num_of_int W) lo hi
      = Math_min (scaleRound (num_sub hi lo) (num_of_int W)) (Fin (of_int (W - k)))"
    unfolding clampExtent_def start rest ..
  with assms(4) show ?thesis
    by (auto simp: Math_min_def nonpos_iff)
qed

subsection \<open>One detection\<close>

lemma detectionRegion_numbers:
  assumes "box_2d_of d = Some (JArr [JNum ymin, JNum xmin, JNum ymax, JNum xmax])"
  shows "detectionRegion coerce W H d =
           (if num_le (region_w (pixelRect W H ymin xmin ymax xmax)) (Fin 0)
               \<or> num_le (region_h (pixelRect W H ymin xmin ymax xmax)) (Fin 0)
            then Inr None else Inr (Some (pixelRect W H ymin xmin ymax xmax)))"
proof -
  from assms have "d \<noteq> JNull" by (auto simp: box_2d_of_def)
  with assms show ?thesis
    by (simp add: detectionRegion_def falsy_def hasLength4_def destructure_def ToNumber_def Let_def)
qed

lemma roundHalfEven_lower: "x - 1 / 2 \<le> of_int (roundHalfEven x)"
  unfolding roundHalfEven_def Let_def by (auto simp: not_less) linarith+

lemma pow2_add: "pow2 (a + b) = pow2 a * pow2 b"
  by (simp add: pow2_def power_int_add)

text \<open>
  Rounding a positive number that is not below the least normal double loses less than
  a fifth of it (in fact no more than one part in \<open>2\<^sup>5\<^sup>3\<close>).
\<close>

lemma toDouble_lower:
  assumes "pow2 (- 1022) \<le> q"
  shows "num_le (Fin (4 / 5 * q)) (toDouble q)"
proof -
  have pos: "0 < q" using assms pow2_pos [of "- 1022"] by linarith
  define e where "e = max (ilog2 q) (- 1022)"
  define quantum where "quantum = pow2 (e - 52)"
  define m where "m = roundHalfEven (q / quantum)"
  have qpos: "0 < quantum" unfolding quantum_def by (rule pow2_pos)
  have "pow2 e \<le> q"
    unfolding e_def using ilog2_le [OF pos] assms by (simp add: max_def)
  moreover have "quantum = pow2 e * pow2 (- 52)"
    unfolding quantum_def using pow2_add [of e "- 52"] by simp
  moreover have "pow2 (- 52) = 1 / 2 ^ 52"
    using pow2_neg [of "- 52"] by simp
  ultimately have small: "quantum \<le> q / 2 ^ 52"
    by (simp add: field_simps)
  have "q / quantum - 1 / 2 \<le> of_int m"
    unfolding m_def by (rule roundHalfEven_lower)
  with qpos have "q - quantum / 2 \<le> of_int m * quantum"
    by (simp add: field_simps)
  with small pos have lower: "4 / 5 * q \<le> of_int m * quantum"
    by simp
  have "toDoublePos q = PosInf \<or> toDoublePos q = Fin (of_int m * quantum)"
    unfolding toDoublePos_def Let_def m_def quantum_def e_def by simp
  with lower pos show ?thesis
    by (auto simp: toDouble_def)
qed

lemma toDouble_lower_cases:
  assumes "pow2 (- 1022) \<le> q"
  obtains "toDouble q = PosInf" | r where "toDouble q = Fin r" and "4 / 5 * q \<le> r"
  using toDouble_lower [OF assms] by (cases "toDouble q") auto

lemma least_normal_small: "pow2 (- 1022) \<le> 1 / 2 ^ 60"
  using pow2_mono [of "- 1022" "- 60"] pow2_neg [of "- 60"] by simp

text \<open>
  An extent of at least one pixel is not rounded below 1: the three roundings of
  \<^verbatim>\<open>((hi - lo) / 1000) * extent\<close> lose less than half of it.
\<close>

lemma scaleRound_pixel_wide:
  assumes "0 < W" and "W \<le> 2 ^ 53" and "1000 \<le> q * of_int W"
  shows "num_le (Fin 1) (scaleRound (toDouble q) (num_of_int W))"
proof -
  from assms(1,2) have w: "num_of_int W = Fin (of_int W)"
    by (simp add: num_of_int_exact)
  from assms(1) have wpos: "(0::rat) < of_int W" by simp
  from assms(2) have "rat_of_int W \<le> rat_of_int (2 ^ 53)" by (simp only: of_int_le_iff)
  then have wmax: "rat_of_int W \<le> 2 ^ 53" by simp
  have qpos: "0 < q"
  proof (rule ccontr)
    assume "\<not> 0 < q"
    with wpos have "q * of_int W \<le> 0" by (simp add: mult_nonpos_nonneg)
    with assms(3) show False by simp
  qed
  with wmax have "q * of_int W \<le> q * 2 ^ 53"
    by (intro mult_left_mono) simp_all
  with assms(3) have q: "1000 / 2 ^ 53 \<le> q" by (simp add: field_simps)
  with least_normal_small have "pow2 (- 1022) \<le> q" by simp
  then show ?thesis
  proof (cases rule: toDouble_lower_cases)
    case 1
    with wpos show ?thesis by (simp add: scaleRound_def w)
  next
    case (2 a)
    from 2(2) q least_normal_small have "pow2 (- 1022) \<le> a / 1000" by simp
    then show ?thesis
    proof (cases rule: toDouble_lower_cases)
      case 1
      with 2(1) wpos show ?thesis by (simp add: scaleRound_def w)
    next
      case inner: (2 b)
      from 2(2) wpos have "4 / 5 * q * of_int W \<le> a * of_int W"
        by (intro mult_right_mono) simp_all
      with assms(3) have aw: "800 \<le> a * of_int W" by simp
      from inner(2) wpos have "4 / 5 * (a / 1000) * of_int W \<le> b * of_int W"
        by (intro mult_right_mono) simp_all
      with aw have bw: "16 / 25 \<le> b * of_int W" by simp
      with least_normal_small have "pow2 (- 1022) \<le> b * of_int W" by simp
      then show ?thesis
      proof (cases rule: toDouble_lower_cases)
        case 1
        with 2(1) inner(1) show ?thesis by (simp add: scaleRound_def w)
      next
        case last: (2 p)
        from last(2) bw have "1 / 2 \<le> p" by simp
        then have "1 \<le> \<lfloor>p + 1 / 2\<rfloor>" by linarith
        then have "(1::rat) \<le> of_int \<lfloor>p + 1 / 2\<rfloor>"
          using of_int_le_iff [of 1 "\<lfloor>p + 1 / 2\<rfloor>", where ?'a = rat] by simp
        with 2(1) inner(1) last(1) show ?thesis by (simp add: scaleRound_def w)
      qed
    qed
  qed
qed

lemma pixelRect_exact:
  assumes "0 < W" and "W \<le> 2 ^ 53" and "0 < H" and "H \<le> 2 ^ 53"
    and "scaleRound xmin (num_of_int W) = Fin (of_int px)"
    and "scaleRound ymin (num_of_int H) = Fin (of_int py)"
    and "scaleRound (num_sub xmax xmin) (num_of_int W) = Fin (of_int pw)"
    and "scaleRound (num_sub ymax ymin) (num_of_int H) = Fin (of_int ph)"
  shows "pixelRect W H ymin xmin ymax xmax = spec_pixelRegion W H px py pw ph"
  unfolding pixelRect_axes spec_pixelRegion_def Let_def
    clampStart_exact [OF assms(1,2,5)] clampStart_exact [OF assms(3,4,6)]
    clampExtent_exact [OF assms(1,2,5,7)] clampExtent_exact [OF assms(3,4,6,8)] ..

lemma detectionRegion_exact:
  assumes "box_2d_of d = Some (JArr [JNum ymin, JNum xmin, JNum ymax, JNum xmax])"
    and "0 < W" and "W \<le> 2 ^ 53" and "0 < H" and "H \<le> 2 ^ 53"
    and "scaleRound xmin (num_of_int W) = Fin (of_int px)"
    and "scaleRound ymin (num_of_int H) = Fin (of_int py)"
    and "scaleRound (num_sub xmax xmin) (num_of_int W) = Fin (of_int pw)"
    and "scaleRound (num_sub ymax ymin) (num_of_int H) = Fin (of_int ph)"
  shows "detectionRegion coerce W H d =
           (if min pw (W - spec_clamp px 0 (W - 1)) \<le> 0 \<or> min ph (H - spec_clamp py 0 (H - 1)) \<le> 0
            then Inr None else Inr (Some (spec_pixelRegion W H px py pw ph)))"
proof -
  have r: "pixelRect W H ymin xmin ymax xmax = spec_pixelRegion W H px py pw ph"
    using assms(2-9) by (rule pixelRect_exact)
  have w: "num_le (region_w (spec_pixelRegion W H px py pw ph)) (Fin 0)
      \<longleftrightarrow> min pw (W - spec_clamp px 0 (W - 1)) \<le> 0"
    using of_int_le_iff [of "min pw (W - spec_clamp px 0 (W - 1))" 0, where ?'a = rat]
    by (simp add: spec_pixelRegion_def Let_def del: of_int_le_iff of_int_diff of_int_min)
  have h: "num_le (region_h (spec_pixelRegion W H px py pw ph)) (Fin 0)
      \<longleftrightarrow> min ph (H - spec_clamp py 0 (H - 1)) \<le> 0"
    using of_int_le_iff [of "min ph (H - spec_clamp py 0 (H - 1))" 0, where ?'a = rat]
    by (simp add: spec_pixelRegion_def Let_def del: of_int_le_iff of_int_diff of_int_min)
  show ?thesis
    unfolding detectionRegion_numbers [OF assms(1)] r w h ..
qed

lemma box_2d_of_boxOf:
  "box_2d_of (boxOf ymin xmin ymax xmax)
     = Some (JArr [JNum (Fin ymin), JNum (Fin xmin), JNum (Fin ymax), JNum (Fin xmax)])"
  by (simp add: boxOf_def box_2d_of_def getProperty_def)

lemma boxOf_region:
  assumes "0 < W" and "W \<le> 2 ^ 53" and "0 < H" and "H \<le> 2 ^ 53"
    and "scaleRound (Fin xmin) (num_of_int W) = Fin (of_int px)"
    and "scaleRound (Fin ymin) (num_of_int H) = Fin (of_int py)"
    and "scaleRound (num_sub (Fin xmax) (Fin xmin)) (num_of_int W) = Fin (of_int pw)"
    and "scaleRound (num_sub (Fin ymax) (Fin ymin)) (num_of_int H) = Fin (of_int ph)"
  shows "detectionRegion coerce W H (boxOf ymin xmin ymax xmax) =
           (if min pw (W - spec_clamp px 0 (W - 1)) \<le> 0 \<or> min ph (H - spec_clamp py 0 (H - 1)) \<le> 0
            then Inr None else Inr (Some (spec_pixelRegion W H px py pw ph)))"
  using box_2d_of_boxOf assms by (rule detectionRegion_exact)

text \<open>A box of finite numbers that ends where it starts, or before, is skipped.\<close>

lemma region_w_flat:
  assumes "0 < W" and "W \<le> 2 ^ 53" and "xmax \<le> xmin"
  shows "num_le (region_w (pixelRect W H ymin (Fin xmin) ymax (Fin xmax))) (Fin 0)"
proof -
  from assms(3) have "num_le (num_sub (Fin xmax) (Fin xmin)) (Fin 0)"
    by (simp add: toDouble_nonpos)
  then have "num_le (scaleRound (num_sub (Fin xmax) (Fin xmin)) (num_of_int W)) (Fin 0)"
    using assms(1,2) by (rule scaleRound_nonpos)
  with assms(1,2) have "num_le (clampExtent (num_of_int W) (Fin xmin) (Fin xmax)) (Fin 0)"
    by (intro clampExtent_nonpos) simp_all
  then show ?thesis by (simp add: pixelRect_axes)
qed

lemma region_h_flat:
  assumes "0 < H" and "H \<le> 2 ^ 53" and "ymax \<le> ymin"
  shows "num_le (region_h (pixelRect W H (Fin ymin) xmin (Fin ymax) xmax)) (Fin 0)"
proof -
  from assms(3) have "num_le (num_sub (Fin ymax) (Fin ymin)) (Fin 0)"
    by (simp add: toDouble_nonpos)
  then have "num_le (scaleRound (num_sub (Fin ymax) (Fin ymin)) (num_of_int H)) (Fin 0)"
    using assms(1,2) by (rule scaleRound_nonpos)
  with assms(1,2) have "num_le (clampExtent (num_of_int H) (Fin ymin) (Fin ymax)) (Fin 0)"
    by (intro clampExtent_nonpos) simp_all
  then show ?thesis by (simp add: pixelRect_axes)
qed

lemma detectionRegion_flat:
  assumes "0 < W" and "W \<le> 2 ^ 53" and "xmax \<le> xmin"
  shows "detectionRegion coerce W H (boxOf ymin xmin ymax xmax) = Inr None"
  using region_w_flat [OF assms, of H "Fin ymin" "Fin ymax"]
  by (simp add: detectionRegion_numbers [OF box_2d_of_boxOf])

lemma detectionRegion_low:
  assumes "0 < H" and "H \<le> 2 ^ 53" and "ymax \<le> ymin"
  shows "detectionRegion coerce W H (boxOf ymin xmin ymax xmax) = Inr None"
  using region_h_flat [OF assms, of W "Fin xmin" "Fin xmax"]
  by (simp add: detectionRegion_numbers [OF box_2d_of_boxOf])

text \<open>
  A box of numbers other than NaN, on an image whose dimensions are positive integers
  up to \<open>2\<^sup>5\<^sup>3\<close>: the detection is skipped exactly when a rounded extent is below one
  pixel, and a region that is not skipped has integer coordinates inside the image.
\<close>

lemma detectionRegion_inside:
  assumes "0 < W" and "W \<le> 2 ^ 53" and "0 < H" and "H \<le> 2 ^ 53"
    and "box_2d_of d = Some (JArr [JNum ymin, JNum xmin, JNum ymax, JNum xmax])"
    and "xmin \<noteq> NaN" and "ymin \<noteq> NaN"
    and "num_sub xmax xmin \<noteq> NaN" and "num_sub ymax ymin \<noteq> NaN"
  shows "detectionRegion coerce W H d = Inr None
           \<longleftrightarrow> \<not> (num_le (Fin 1) (scaleRound (num_sub xmax xmin) (num_of_int W))
                  \<and> num_le (Fin 1) (scaleRound (num_sub ymax ymin) (num_of_int H)))"
    and "detectionRegion coerce W H d = Inr None
         \<or> (\<exists>x y w h.
               detectionRegion coerce W H d
                 = Inr (Some \<lparr>region_x = Fin (of_int x), region_y = Fin (of_int y),
                              region_w = Fin (of_int w), region_h = Fin (of_int h)\<rparr>)
               \<and> 0 \<le> x \<and> 0 \<le> y \<and> x + w \<le> W \<and> y + h \<le> H \<and> 0 < w \<and> 0 < h)"
proof -
  let ?sw = "scaleRound (num_sub xmax xmin) (num_of_int W)"
  let ?sh = "scaleRound (num_sub ymax ymin) (num_of_int H)"
  let ?w = "clampExtent (num_of_int W) xmin xmax"
  let ?h = "clampExtent (num_of_int H) ymin ymax"
  have "roundedValue (scaleRound xmin (num_of_int W))"
    using assms(6,1,2) by (rule scaleRound_rounded)
  with assms(1,2) obtain x where x: "clampStart (num_of_int W) xmin = Fin (of_int x)"
    and xb: "0 \<le> x" "x < W"
    using clampStart_rounded by blast
  have "roundedValue (scaleRound ymin (num_of_int H))"
    using assms(7,3,4) by (rule scaleRound_rounded)
  with assms(3,4) obtain y where y: "clampStart (num_of_int H) ymin = Fin (of_int y)"
    and yb: "0 \<le> y" "y < H"
    using clampStart_rounded by blast
  have "roundedValue ?sw"
    using assms(8,1,2) by (rule scaleRound_rounded)
  with assms(2) x xb have w: "num_le ?w (Fin 0) \<longleftrightarrow> \<not> num_le (Fin 1) ?sw"
    and wb: "num_le (Fin 1) ?sw \<longrightarrow> (\<exists>j. ?w = Fin (of_int j) \<and> 0 < j \<and> x + j \<le> W)"
    using clampExtent_rounded [of W xmin x xmax] by blast+
  have "roundedValue ?sh"
    using assms(9,3,4) by (rule scaleRound_rounded)
  with assms(4) y yb have h: "num_le ?h (Fin 0) \<longleftrightarrow> \<not> num_le (Fin 1) ?sh"
    and hb: "num_le (Fin 1) ?sh \<longrightarrow> (\<exists>j. ?h = Fin (of_int j) \<and> 0 < j \<and> y + j \<le> H)"
    using clampExtent_rounded [of H ymin y ymax] by blast+
  have region: "detectionRegion coerce W H d =
      (if num_le ?w (Fin 0) \<or> num_le ?h (Fin 0) then Inr None
       else Inr (Some \<lparr>region_x = Fin (of_int x), region_y = Fin (of_int y),
                       region_w = ?w, region_h = ?h\<rparr>))"
    by (simp add: detectionRegion_numbers [OF assms(5)] pixelRect_axes x y)
  show "detectionRegion coerce W H d = Inr None \<longleftrightarrow> \<not> (num_le (Fin 1) ?sw \<and> num_le (Fin 1) ?sh)"
    unfolding region using w h by simp
  show "detectionRegion coerce W H d = Inr None
      \<or> (\<exists>x y w h.
            detectionRegion coerce W H d
              = Inr (Some \<lparr>region_x = Fin (of_int x), region_y = Fin (of_int y),
                           region_w = Fin (of_int w), region_h = Fin (of_int h)\<rparr>)
            \<and> 0 \<le> x \<and> 0 \<le> y \<and> x + w \<le> W \<and> y + h \<le> H \<and> 0 < w \<and> 0 < h)"
  proof (cases "num_le ?w (Fin 0) \<or> num_le ?h (Fin 0)")
    case True
    then show ?thesis by (simp add: region)
  next
    case False
    with w h wb hb obtain j k where "?w = Fin (of_int j)" "0 < j" "x + j \<le> W"
      and "?h = Fin (of_int k)" "0 < k" "y + k \<le> H"
      by blast
    with False xb yb region show ?thesis by auto
  qed
qed

subsection \<open>The blur loop\<close>

lemma blurLoop_skip:
  "detectionRegion coerce width height d = Inr None \<Longrightarrow>
     blurLoop J coerce width height blurRadius (d # rest) img n
       = blurLoop J coerce width height blurRadius rest img n"
  by simp

lemma blurLoop_all_rejected:
  "\<forall>d \<in> set ds. detectionRegion coerce width height d = Inr None \<Longrightarrow>
     blurLoop J coerce width height blurRadius ds img n = Inr (img, n)"
  by (induction ds) simp_all

text \<open>The counter ends at the number of detections that gave a region.\<close>

lemma blurLoop_count:
  "blurLoop J coerce width height blurRadius ds img n = Inr (img', m) \<Longrightarrow>
     m = n + length (filter (\<lambda>d. \<exists>r. detectionRegion coerce width height d = Inr (Some r)) ds)"
proof (induction ds arbitrary: img n)
  case Nil
  then show ?case by simp
next
  case (Cons d ds)
  show ?case
  proof (cases "detectionRegion coerce width height d")
    case (Inl e)
    with Cons.prems show ?thesis by simp
  next
    case (Inr res)
    show ?thesis
    proof (cases res)
      case None
      with Inr Cons.prems have "blurLoop J coerce width height blurRadius ds img n = Inr (img', m)"
        by simp
      from Cons.IH [OF this] Inr None show ?thesis by simp
    next
      case (Some r)
      with Inr Cons.prems obtain img2
        where "blurLoop J coerce width height blurRadius ds img2 (Suc n) = Inr (img', m)"
        by (auto split: sum.splits)
      from Cons.IH [OF this] Inr Some show ?thesis by simp
    qed
  qed
qed

subsection \<open>Effects of blurRegions on the files\<close>

lemmas blurRegions_unfold =
  blurRegions_def Let_def ensureBackup_def existsSync_def copyFileSync_def image_write_def
  Jimp_read_def

text \<open>Only the image and its backup path are ever written.\<close>

lemma blurRegions_frame:
  "p \<noteq> imagePath \<Longrightarrow> p \<noteq> backupPathOf P imagePath \<Longrightarrow>
     fst (blurRegions P J coerce intensity fs imagePath detections) p = fs p"
  by (auto simp: blurRegions_unfold split: sum.splits option.splits prod.splits if_splits)

lemma blurRegions_backup_kept:
  "fs (backupPathOf P imagePath) = Some saved \<Longrightarrow> backupPathOf P imagePath \<noteq> imagePath \<Longrightarrow>
     fst (blurRegions P J coerce intensity fs imagePath detections) (backupPathOf P imagePath)
       = Some saved"
  by (auto simp: blurRegions_unfold split: sum.splits option.splits prod.splits if_splits)

lemma blurRegions_backup_created:
  "fs imagePath = Some content \<Longrightarrow> fs (backupPathOf P imagePath) = None \<Longrightarrow>
     fst (blurRegions P J coerce intensity fs imagePath detections) (backupPathOf P imagePath)
       = Some content"
  by (auto simp: blurRegions_unfold split: sum.splits option.splits prod.splits if_splits)

text \<open>The image is written only on the branch that reports blurred regions.\<close>

lemma ensureBackup_image:
  "ensureBackup fs imagePath backupPath = Inr fs1 \<Longrightarrow> fs1 imagePath = fs imagePath"
  by (auto simp: ensureBackup_def existsSync_def copyFileSync_def split: option.splits if_splits)

lemma blurRegions_written_only_when_blurred:
  assumes "\<forall>n. snd (blurRegions P J coerce intensity fs imagePath detections) \<noteq> Blurred n"
  shows "fst (blurRegions P J coerce intensity fs imagePath detections) imagePath = fs imagePath"
proof (cases "ensureBackup fs imagePath (backupPathOf P imagePath)")
  case (Inl e)
  then show ?thesis by (simp add: blurRegions_def Let_def)
next
  case (Inr fs1)
  then have same: "fs1 imagePath = fs imagePath" by (rule ensureBackup_image)
  from assms Inr same show ?thesis
    by (simp add: blurRegions_def Let_def split: sum.splits prod.splits if_splits)
qed

lemma blurRegions_all_rejected:
  assumes "fs imagePath = Some content"
    and "jimp_decode J content = Inr img"
    and "\<forall>d \<in> set detections.
           detectionRegion coerce (jimp_width J img) (jimp_height J img) d = Inr None"
  shows "blurRegions P J coerce intensity fs imagePath detections
           = (if fs (backupPathOf P imagePath) = None
              then fs(backupPathOf P imagePath \<mapsto> content) else fs, NoValidRegions)"
proof -
  have loop: "blurLoop J coerce (jimp_width J img) (jimp_height J img) r detections img 0
      = Inr (img, 0)" for r
    using assms(3) by (rule blurLoop_all_rejected)
  show ?thesis
  proof (cases "fs (backupPathOf P imagePath)")
    case None
    with assms(1) have "backupPathOf P imagePath \<noteq> imagePath" by auto
    with None assms(1,2) loop show ?thesis
      by (simp add: blurRegions_unfold)
  next
    case (Some saved)
    with assms(1,2) loop show ?thesis
      by (simp add: blurRegions_unfold)
  qed
qed

subsection \<open>Restore\<close>

lemma includesStr_empty: "\<not> includesStr [] ''_backup''"
  by (simp add: includesStr_def)

lemma restore_rejected:
  "p \<noteq> [] \<Longrightarrow> \<not> includesStr p ''_backup'' \<Longrightarrow>
     restoreFromBackup P fs (Some p) = (fs, NotABackupFile)"
  by (simp add: restoreFromBackup_def)

lemma restore_performed:
  assumes "includesStr p ''_backup''" and "fs p = Some content" and "originalPathOf P p \<noteq> p"
  shows "restoreFromBackup P fs (Some p)
           = ((fs(originalPathOf P p \<mapsto> content))(p := None),
              Restored (removeFirst ''_backup'' (path_basename P p (path_extname P p))
                          @ path_extname P p))"
proof -
  from assms(1) have "p \<noteq> []"
    using includesStr_empty by auto
  with assms show ?thesis
    by (simp add: restoreFromBackup_def Let_def copyFileSync_def unlinkSync_def)
qed

text \<open>
  When the marker does not occur in the stem, the first occurrence in the stem followed
  by the marker is the one at the end: the marker starts with the only underscore it
  holds, so no occurrence can straddle the joint.
\<close>

lemma marker_not_straddling:
  assumes "\<not> prefix ''_backup'' (c # cs)"
  shows "\<not> prefix ''_backup'' ((c # cs) @ ''_backup'')"
proof
  assume whole: "prefix ''_backup'' ((c # cs) @ ''_backup'')"
  then have both: "CHR ''_'' = c \<and> prefix ''backup'' (cs @ ''_backup'')"
    unfolding append_Cons Cons_prefix_Cons .
  from both have c: "CHR ''_'' = c" by (rule conjunct1)
  from both have tail: "prefix ''backup'' (cs @ ''_backup'')" by (rule conjunct2)
  from assms have short: "\<not> prefix ''backup'' cs"
    unfolding c [symmetric] Cons_prefix_Cons by simp
  with tail obtain us where split: "''backup'' = cs @ us" and us: "prefix us ''_backup''"
    unfolding prefix_append by blast
  from split short have "us \<noteq> []" by auto
  then obtain u us' where cons: "us = u # us'" by (cases us) auto
  from us have "u = CHR ''_''" unfolding cons Cons_prefix_Cons by (rule conjunct1)
  with cons have "CHR ''_'' \<in> set (cs @ us)" by simp
  then have "CHR ''_'' \<in> set ''backup''" unfolding split [symmetric] .
  then show False by simp
qed

lemma findSub_marker_at_end:
  "\<not> includesStr stem ''_backup'' \<Longrightarrow> findSub ''_backup'' (stem @ ''_backup'') = Some (stem, [])"
proof (induction stem)
  case Nil
  show ?case by simp
next
  case (Cons c cs)
  from Cons.prems have np: "\<not> prefix ''_backup'' (c # cs)" and rest: "\<not> includesStr cs ''_backup''"
    by (auto simp: includesStr_def split: if_splits)
  from np have "\<not> prefix ''_backup'' ((c # cs) @ ''_backup'')"
    by (rule marker_not_straddling)
  then have step: "findSub ''_backup'' ((c # cs) @ ''_backup'')
      = map_option (\<lambda>(front, back). (c # front, back)) (findSub ''_backup'' (cs @ ''_backup''))"
    by (simp only: append_Cons findSub.simps if_False)
  show ?case unfolding step Cons.IH [OF rest] by simp
qed

lemma removeFirst_marker_at_end:
  "\<not> includesStr stem ''_backup'' \<Longrightarrow> removeFirst ''_backup'' (stem @ ''_backup'') = stem"
  by (simp add: removeFirst_def findSub_marker_at_end)

lemma restore_convention:
  assumes "includesStr p ''_backup''"
    and "path_basename P p (path_extname P p) = stem @ ''_backup''"
    and "\<not> includesStr stem ''_backup''"
    and "fs p = Some content"
    and "path_join P (path_dirname P p) (stem @ path_extname P p) \<noteq> p"
  shows "restoreFromBackup P fs (Some p)
           = ((fs(path_join P (path_dirname P p) (stem @ path_extname P p) \<mapsto> content))(p := None),
              Restored (stem @ path_extname P p))"
proof -
  have stem: "removeFirst ''_backup'' (path_basename P p (path_extname P p)) = stem"
    unfolding assms(2) using assms(3) by (rule removeFirst_marker_at_end)
  then have orig: "originalPathOf P p = path_join P (path_dirname P p) (stem @ path_extname P p)"
    by (simp add: originalPathOf_def Let_def)
  with assms(5) have "originalPathOf P p \<noteq> p" by simp
  with assms(1,4) have "restoreFromBackup P fs (Some p)
      = ((fs(originalPathOf P p \<mapsto> content))(p := None),
         Restored (removeFirst ''_backup'' (path_basename P p (path_extname P p))
                     @ path_extname P p))"
    by (rule restore_performed)
  then show ?thesis unfolding stem orig .
qed

subsection \<open>Validator and parser\<close>

lemma typeofNumber_iff: "typeofNumber v \<longleftrightarrow> (\<exists>q. v = JNum q)"
  by (cases v) (simp_all add: typeofNumber_def)

lemma four_numbers_iff:
  "length ns = 4 \<and> list_all typeofNumber ns
     \<longleftrightarrow> (\<exists>a b c d. ns = [JNum a, JNum b, JNum c, JNum d])"
proof
  assume asm: "length ns = 4 \<and> list_all typeofNumber ns"
  then obtain w x y z where ns: "ns = [w, x, y, z]"
    by (auto simp: numeral_eq_Suc length_Suc_conv)
  with asm show "\<exists>a b c d. ns = [JNum a, JNum b, JNum c, JNum d]"
    by (auto simp: typeofNumber_iff)
next
  assume "\<exists>a b c d. ns = [JNum a, JNum b, JNum c, JNum d]"
  then show "length ns = 4 \<and> list_all typeofNumber ns"
    by (auto simp: typeofNumber_def)
qed

lemma isValidBoundingBox_iff:
  "isValidBoundingBox r \<longleftrightarrow>
     (\<exists>members a b c d. r = JObj members
        \<and> getProperty members ''box_2d'' = Some (JArr [JNum a, JNum b, JNum c, JNum d]))"
proof (cases r)
  case (JObj members)
  show ?thesis
  proof (cases "getProperty members ''box_2d''")
    case None
    with JObj show ?thesis
      by (simp add: isValidBoundingBox_def typeofObject_def box_2d_of_def)
  next
    case (Some v)
    show ?thesis
    proof (cases v)
      case (JArr ns)
      with JObj Some show ?thesis
        using four_numbers_iff [of ns]
        by (simp add: isValidBoundingBox_def typeofObject_def box_2d_of_def)
    qed (use JObj Some in \<open>simp_all add: isValidBoundingBox_def typeofObject_def box_2d_of_def\<close>)
  qed
qed (simp_all add: isValidBoundingBox_def typeofObject_def box_2d_of_def)

lemma parseJsonResponse_total: "\<exists>v. parseJsonResponse JSON_parse text = Inr v"
  by (simp add: parseJsonResponse_def split: sum.splits option.splits)

lemma parseAndValidateDetections_total: "\<exists>vs. parseAndValidateDetections JSON_parse text = Inr vs"
  by (simp add: parseAndValidateDetections_def split: sum.splits option.splits)

lemma parseJsonResponse_all_fail:
  assumes "\<forall>s \<in> set (parseCandidates text). \<exists>e. JSON_parse s = Inl e"
  shows "parseJsonResponse JSON_parse text = Inr (JArr [])"
  using assms
  by (auto simp: parseJsonResponse_def parseCandidates_def split: sum.splits option.splits)

lemma parseAndValidateDetections_all_fail:
  assumes "\<forall>s \<in> set (parseCandidates text). \<exists>e. JSON_parse s = Inl e"
  shows "parseAndValidateDetections JSON_parse text = Inr []"
  using assms
  by (auto simp: parseAndValidateDetections_def parseCandidates_def split: sum.splits option.splits)

text \<open>
  Where the two parsers leave the chain: \<^const>\<open>parseJsonResponse\<close> returns the empty
  array as soon as a fenced block is found whose inside does not parse;
  \<^const>\<open>parseAndValidateDetections\<close> returns the empty list as soon as no fenced block is
  found. Neither looks for a bracketed substring then.
\<close>

lemma parseJsonResponse_unparsable_fence:
  "JSON_parse text = Inl e \<Longrightarrow> matchFence text = Some inner \<Longrightarrow> JSON_parse (trim inner) = Inl e'
     \<Longrightarrow> parseJsonResponse JSON_parse text = Inr (JArr [])"
  by (simp add: parseJsonResponse_def)

lemma parseAndValidateDetections_no_fence:
  "JSON_parse text = Inl e \<Longrightarrow> matchFence text = None
     \<Longrightarrow> parseAndValidateDetections JSON_parse text = Inr []"
  by (simp add: parseAndValidateDetections_def)

subsection \<open>Values of the scaling on the examples\<close>

text \<open>
  The double arithmetic of the examples, evaluated once: \<^verbatim>\<open>Math.round((v / 1000) * extent)\<close>
  for the values and extents that occur below.
\<close>

lemma scale_0_of_1000: "scaleRound (Fin 0) (num_of_int 1000) = Fin (of_int 0)"
  by code_simp

lemma scale_500_of_1000: "scaleRound (num_sub (Fin 500) (Fin 0)) (num_of_int 1000) = Fin (of_int 500)"
  by code_simp

lemma scale_900_of_1000: "scaleRound (Fin 900) (num_of_int 1000) = Fin (of_int 900)"
  by code_simp

lemma scale_900_of_500: "scaleRound (Fin 900) (num_of_int 500) = Fin (of_int 450)"
  by code_simp

lemma scale_100_of_1000:
  "scaleRound (num_sub (Fin 1000) (Fin 900)) (num_of_int 1000) = Fin (of_int 100)"
  by code_simp

lemma scale_100_of_500:
  "scaleRound (num_sub (Fin 1000) (Fin 900)) (num_of_int 500) = Fin (of_int 50)"
  by code_simp

lemma scale_0_of_100: "scaleRound (Fin 0) (num_of_int 100) = Fin (of_int 0)"
  by code_simp

lemma scale_1_of_100: "scaleRound (num_sub (Fin 1) (Fin 0)) (num_of_int 100) = Fin (of_int 0)"
  by code_simp

lemma scale_146_of_100: "scaleRound (Fin 146) (num_of_int 100) = Fin (of_int 15)"
  by code_simp

lemma scale_145_of_100: "scaleRound (Fin 145) (num_of_int 100) = Fin (of_int 14)"
  by code_simp

lemma scale_500_of_100_a: "scaleRound (num_sub (Fin 646) (Fin 146)) (num_of_int 100) = Fin (of_int 50)"
  by code_simp

lemma scale_500_of_100_b: "scaleRound (num_sub (Fin 645) (Fin 145)) (num_of_int 100) = Fin (of_int 50)"
  by code_simp

lemma scale_500_of_100_c: "scaleRound (num_sub (Fin 500) (Fin 0)) (num_of_int 100) = Fin (of_int 50)"
  by code_simp

lemma scale_1200_of_1000: "scaleRound (Fin 1200) (num_of_int 1000) = Fin (of_int 1200)"
  by code_simp

lemma scale_1300_1200_of_1000:
  "scaleRound (num_sub (Fin 1300) (Fin 1200)) (num_of_int 1000) = Fin (of_int 100)"
  by code_simp

lemma scale_minus_5000_of_1000: "scaleRound (Fin (- 5000)) (num_of_int 1000) = Fin (of_int (- 5000))"
  by code_simp

lemma scale_minus_4000_5000_of_1000:
  "scaleRound (num_sub (Fin (- 4000)) (Fin (- 5000))) (num_of_int 1000) = Fin (of_int 1000)"
  by code_simp

lemma product_146_of_100:
  "num_mul (num_div_by (Fin 146) 1000) (num_of_int 100)
     = Fin (8219069319951155 / 562949953421312)"
  by code_simp

lemma product_145_of_100:
  "num_mul (num_div_by (Fin 145) 1000) (num_of_int 100)
     = Fin (8162774324609023 / 562949953421312)"
  by code_simp

lemma product_0_of_100: "num_mul (num_div_by (Fin 0) 1000) (num_of_int 100) = Fin 0"
  by code_simp

lemma product_500_of_100_a:
  "num_mul (num_div_by (num_sub (Fin 646) (Fin 146)) 1000) (num_of_int 100) = Fin 50"
  by code_simp

lemma product_500_of_100_c:
  "num_mul (num_div_by (num_sub (Fin 500) (Fin 0)) 1000) (num_of_int 100) = Fin 50"
  by code_simp

lemma nan_try:
  "detectionRegion sampleCoerce 1000 1000
     (JObj [(''box_2d'', JArr [JNum (Fin 0), JNum PosInf, JNum (Fin 10), JNum PosInf])])
   = Inr (Some \<lparr>region_x = Fin 999, region_y = Fin 0, region_w = NaN, region_h = Fin 10\<rparr>)"
  by code_simp

subsection \<open>Rounding to the nearest integer\<close>

lemma spec_round_floor: "spec_round v \<lfloor>v + 1 / 2\<rfloor>"
  unfolding spec_round_def by linarith

lemma spec_round_unique: "spec_round v k \<Longrightarrow> k = \<lfloor>v + 1 / 2\<rfloor>"
  unfolding spec_round_def by linarith

lemma scaleRound_of_product:
  "num_mul (num_div_by v 1000) extent = Fin p \<Longrightarrow> scaleRound v extent = Fin (of_int \<lfloor>p + 1 / 2\<rfloor>)"
  by (simp add: scaleRound_def)

section \<open>The claims\<close>

subsection \<open>Backup\<close>

text \<open>
  Claim C1. The backup step is idempotent. A redaction that finds a file at the backup
  path leaves that file as it is, whatever the detections and the image library do; so
  when a first redaction of an image without a backup is followed by a second one, the
  backup still holds the bytes the image had before the first redaction.
\<close>

theorem backup_never_refreshed:
  "(fs (backupPathOf P imagePath) = Some saved \<and> backupPathOf P imagePath \<noteq> imagePath \<longrightarrow>
      fst (blurRegions P J coerce intensity fs imagePath detections) (backupPathOf P imagePath)
        = Some saved)
   \<and> (fs imagePath = Some original \<and> fs (backupPathOf P imagePath) = None \<longrightarrow>
        fst (blurRegions P J2 coerce2 intensity2
               (fst (blurRegions P J coerce intensity fs imagePath detections)) imagePath detections2)
            (backupPathOf P imagePath) = Some original)"
proof -
  have kept: "fst (blurRegions P J coerce intensity fs imagePath detections) (backupPathOf P imagePath)
      = Some saved"
    if "fs (backupPathOf P imagePath) = Some saved" and "backupPathOf P imagePath \<noteq> imagePath"
    using that by (rule blurRegions_backup_kept)
  have twice: "fst (blurRegions P J2 coerce2 intensity2
        (fst (blurRegions P J coerce intensity fs imagePath detections)) imagePath detections2)
      (backupPathOf P imagePath) = Some original"
    if image: "fs imagePath = Some original" and absent: "fs (backupPathOf P imagePath) = None"
  proof -
    from image absent have differ: "backupPathOf P imagePath \<noteq> imagePath" by auto
    have "fst (blurRegions P J coerce intensity fs imagePath detections) (backupPathOf P imagePath)
        = Some original"
      using image absent by (rule blurRegions_backup_created)
    then show ?thesis using differ by (rule blurRegions_backup_kept)
  qed
  from kept twice show ?thesis by blast
qed

text \<open>
  The sample image is blurred twice. The first redaction changes the image; after the
  second one the backup still holds the first bytes.
\<close>

theorem backup_never_refreshed_witness:
  "sampleFiles ''/img/p.png'' = Some [2, 2, 10, 20, 30, 40]
   \<and> sampleFiles ''/img/p_backup.png'' = None
   \<and> fst (blurRegions posix sampleJimp sampleCoerce (Fin 25) sampleFiles ''/img/p.png''
            [boxOf 0 0 1000 500]) ''/img/p.png'' = Some [2, 2, 20, 20, 20, 40]
   \<and> fst (blurRegions posix sampleJimp sampleCoerce (Fin 25)
            (fst (blurRegions posix sampleJimp sampleCoerce (Fin 25) sampleFiles ''/img/p.png''
                    [boxOf 0 0 1000 500]))
            ''/img/p.png'' [boxOf 0 0 1000 1000]) ''/img/p_backup.png''
       = Some [2, 2, 10, 20, 30, 40]"
proof -
  have path: "backupPathOf posix ''/img/p.png'' = ''/img/p_backup.png''"
    by code_simp
  have image: "sampleFiles ''/img/p.png'' = Some [2, 2, 10, 20, 30, 40]"
    and absent: "sampleFiles ''/img/p_backup.png'' = None"
    by (simp_all add: sampleFiles_def)
  have first: "fst (blurRegions posix sampleJimp sampleCoerce (Fin 25) sampleFiles ''/img/p.png''
      [boxOf 0 0 1000 500]) ''/img/p.png'' = Some [2, 2, 20, 20, 20, 40]"
    by code_simp
  from backup_never_refreshed
    [where P = posix and imagePath = "''/img/p.png''" and fs = sampleFiles
       and original = "[2, 2, 10, 20, 30, 40]" and J = sampleJimp and ?J2.0 = sampleJimp
       and coerce = sampleCoerce and ?coerce2.0 = sampleCoerce
       and intensity = "Fin 25" and ?intensity2.0 = "Fin 25"
       and detections = "[boxOf 0 0 1000 500]"
       and ?detections2.0 = "[boxOf 0 0 1000 1000]"]
    image absent first
  show ?thesis
    by (simp add: path)
qed

text \<open>
  Claim C10. On a path without a backup the backup copy is made before any detection is
  looked at: it exists after the call for every list of detections and every behaviour
  of the image library, also when decoding fails. When every detection is rejected the
  image itself is not written, and no blurred region is reported.
\<close>

theorem backup_created_before_detections:
  assumes "fs imagePath = Some content"
    and "fs (backupPathOf P imagePath) = None"
  shows "fst (blurRegions P J coerce intensity fs imagePath detections) (backupPathOf P imagePath)
           = Some content
       \<and> ((\<forall>img. jimp_decode J content = Inr img \<longrightarrow>
              (\<forall>d \<in> set detections.
                  detectionRegion coerce (jimp_width J img) (jimp_height J img) d = Inr None)) \<longrightarrow>
            fst (blurRegions P J coerce intensity fs imagePath detections) imagePath = Some content
            \<and> (\<forall>n. snd (blurRegions P J coerce intensity fs imagePath detections) \<noteq> Blurred n))"
proof -
  have created: "fst (blurRegions P J coerce intensity fs imagePath detections)
      (backupPathOf P imagePath) = Some content"
    using assms by (rule blurRegions_backup_created)
  have unwritten: "fst (blurRegions P J coerce intensity fs imagePath detections) imagePath
        = Some content
      \<and> (\<forall>n. snd (blurRegions P J coerce intensity fs imagePath detections) \<noteq> Blurred n)"
    if rejected: "\<forall>img. jimp_decode J content = Inr img \<longrightarrow>
      (\<forall>d \<in> set detections.
         detectionRegion coerce (jimp_width J img) (jimp_height J img) d = Inr None)"
  proof (cases "jimp_decode J content")
    case (Inl e)
    from assms have "backupPathOf P imagePath \<noteq> imagePath" by auto
    with assms Inl show ?thesis
      by (simp add: blurRegions_unfold)
  next
    case (Inr img)
    with rejected have "\<forall>d \<in> set detections.
        detectionRegion coerce (jimp_width J img) (jimp_height J img) d = Inr None"
      by blast
    with assms(1) Inr have "blurRegions P J coerce intensity fs imagePath detections
        = (if fs (backupPathOf P imagePath) = None
           then fs(backupPathOf P imagePath \<mapsto> content) else fs, NoValidRegions)"
      by (rule blurRegions_all_rejected)
    with assms(1) show ?thesis
      by auto
  qed
  from created unwritten show ?thesis by blast
qed

text \<open>
  The sample image with one detection of height zero: the backup appears, the image
  keeps its bytes.
\<close>

theorem backup_created_before_detections_witness:
  "sampleFiles ''/img/p.png'' = Some [2, 2, 10, 20, 30, 40]
   \<and> sampleFiles ''/img/p_backup.png'' = None
   \<and> detectionRegion sampleCoerce 2 2 (boxOf 0 0 0 500) = Inr None
   \<and> fst (blurRegions posix sampleJimp sampleCoerce (Fin 25) sampleFiles ''/img/p.png''
            [boxOf 0 0 0 500]) ''/img/p_backup.png''
       = Some [2, 2, 10, 20, 30, 40]"
proof -
  have path: "backupPathOf posix ''/img/p.png'' = ''/img/p_backup.png''"
    by code_simp
  have image: "sampleFiles ''/img/p.png'' = Some [2, 2, 10, 20, 30, 40]"
    and absent: "sampleFiles (backupPathOf posix ''/img/p.png'') = None"
    by (simp_all add: sampleFiles_def path)
  have rejected: "detectionRegion sampleCoerce 2 2 (boxOf 0 0 0 500) = Inr None"
    by (rule detectionRegion_low) simp_all
  have "fst (blurRegions posix sampleJimp sampleCoerce (Fin 25) sampleFiles ''/img/p.png''
      [boxOf 0 0 0 500]) (backupPathOf posix ''/img/p.png'')
      = Some [2, 2, 10, 20, 30, 40]"
    using backup_created_before_detections
      [where P = posix and imagePath = "''/img/p.png''" and fs = sampleFiles
         and content = "[2, 2, 10, 20, 30, 40]", OF image absent]
    by blast
  with image absent rejected show ?thesis
    by (simp add: path)
qed

subsection \<open>Redaction without a valid region\<close>



subsection \<open>Coordinate mapping\<close>

text \<open>
  Claim C6. The mapping of the code is the mapping of the specification. Each of the
  four products \<open>(v / 1000) * extent\<close>, evaluated in double arithmetic as the code
  does, is replaced by the integer nearest to it (a tie goes up); the corner is then
  clamped into the image and the extent cut to the space that remains. On the two
  scenarios of the specification the code gives the regions the specification
  expects. The dimensions of the image are positive integers up to \<open>2\<^sup>5\<^sup>3\<close>.
\<close>

theorem pixelRect_is_spec_mapping:
  assumes "0 < W" and "W \<le> 2 ^ 53" and "0 < H" and "H \<le> 2 ^ 53"
    and "num_mul (num_div_by xmin 1000) (num_of_int W) = Fin vx"
    and "num_mul (num_div_by ymin 1000) (num_of_int H) = Fin vy"
    and "num_mul (num_div_by (num_sub xmax xmin) 1000) (num_of_int W) = Fin vw"
    and "num_mul (num_div_by (num_sub ymax ymin) 1000) (num_of_int H) = Fin vh"
  shows "(\<exists>px py pw ph.
            spec_round vx px \<and> spec_round vy py \<and> spec_round vw pw \<and> spec_round vh ph
            \<and> pixelRect W H ymin xmin ymax xmax = spec_pixelRegion W H px py pw ph)
       \<and> detectionRegion coerce 1000 1000 (boxOf 0 0 500 500)
           = Inr (Some \<lparr>region_x = Fin 0, region_y = Fin 0, region_w = Fin 500, region_h = Fin 500\<rparr>)
       \<and> detectionRegion coerce 1000 500 (boxOf 900 900 1000 1000)
           = Inr (Some \<lparr>region_x = Fin 900, region_y = Fin 450, region_w = Fin 100, region_h = Fin 50\<rparr>)"
proof -
  have "pixelRect W H ymin xmin ymax xmax
      = spec_pixelRegion W H \<lfloor>vx + 1 / 2\<rfloor> \<lfloor>vy + 1 / 2\<rfloor> \<lfloor>vw + 1 / 2\<rfloor> \<lfloor>vh + 1 / 2\<rfloor>"
    using assms(1-4) scaleRound_of_product [OF assms(5)] scaleRound_of_product [OF assms(6)]
      scaleRound_of_product [OF assms(7)] scaleRound_of_product [OF assms(8)]
    by (rule pixelRect_exact)
  then have general: "\<exists>px py pw ph.
      spec_round vx px \<and> spec_round vy py \<and> spec_round vw pw \<and> spec_round vh ph
      \<and> pixelRect W H ymin xmin ymax xmax = spec_pixelRegion W H px py pw ph"
    using spec_round_floor by blast
  have first: "detectionRegion coerce 1000 1000 (boxOf 0 0 500 500)
      = Inr (Some \<lparr>region_x = Fin 0, region_y = Fin 0, region_w = Fin 500, region_h = Fin 500\<rparr>)"
    using boxOf_region [where W = 1000 and H = 1000 and coerce = coerce,
        OF _ _ _ _ scale_0_of_1000 scale_0_of_1000 scale_500_of_1000 scale_500_of_1000]
    by (simp add: spec_pixelRegion_def spec_clamp_def)
  have second: "detectionRegion coerce 1000 500 (boxOf 900 900 1000 1000)
      = Inr (Some \<lparr>region_x = Fin 900, region_y = Fin 450, region_w = Fin 100, region_h = Fin 50\<rparr>)"
    using boxOf_region [where W = 1000 and H = 500 and coerce = coerce,
        OF _ _ _ _ scale_900_of_1000 scale_900_of_500 scale_100_of_1000 scale_100_of_500]
    by (simp add: spec_pixelRegion_def spec_clamp_def)
  from general first second show ?thesis by simp
qed

text \<open>
  A box whose left edge falls between two pixels: on an image of 100 by 100 pixels the
  box \<open>[0, 146, 500, 646]\<close> starts at the double next to 14.6, which is rounded up to
  15, not cut to 14.
\<close>

theorem pixelRect_is_spec_mapping_witness:
  "(0::int) < 100 \<and> (100::int) \<le> 2 ^ 53
   \<and> num_mul (num_div_by (Fin 146) 1000) (num_of_int 100)
       = Fin (8219069319951155 / 562949953421312)
   \<and> spec_round (8219069319951155 / 562949953421312) 15
   \<and> \<not> spec_round (8219069319951155 / 562949953421312) 14
   \<and> pixelRect 100 100 (Fin 0) (Fin 146) (Fin 500) (Fin 646)
       = \<lparr>region_x = Fin 15, region_y = Fin 0, region_w = Fin 50, region_h = Fin 50\<rparr>"
proof -
  have w: "(0::int) < 100" "(100::int) \<le> 2 ^ 53" by simp_all
  from pixelRect_is_spec_mapping
    [OF w w product_146_of_100 product_0_of_100 product_500_of_100_a product_500_of_100_c]
  obtain px py pw ph
    where px: "spec_round (8219069319951155 / 562949953421312) px"
      and py: "spec_round 0 py" and pw: "spec_round 50 pw" and ph: "spec_round 50 ph"
      and r: "pixelRect 100 100 (Fin 0) (Fin 146) (Fin 500) (Fin 646)
                = spec_pixelRegion 100 100 px py pw ph"
    by blast
  from px have "px = 15" unfolding spec_round_def by linarith
  moreover from py have "py = 0" unfolding spec_round_def by linarith
  moreover from pw have "pw = 50" unfolding spec_round_def by linarith
  moreover from ph have "ph = 50" unfolding spec_round_def by linarith
  ultimately have "pixelRect 100 100 (Fin 0) (Fin 146) (Fin 500) (Fin 646)
      = \<lparr>region_x = Fin 15, region_y = Fin 0, region_w = Fin 50, region_h = Fin 50\<rparr>"
    using r by (simp add: spec_pixelRegion_def spec_clamp_def)
  moreover have "spec_round (8219069319951155 / 562949953421312) 15"
    and "\<not> spec_round (8219069319951155 / 562949953421312) 14"
    by (simp_all add: spec_round_def)
  ultimately show ?thesis using w product_146_of_100 by simp
qed

text \<open>
  The products are those of double arithmetic, not of exact arithmetic. On an image of
  100 by 100 pixels the left edge 145 gives the double just below 14.5, so the code
  starts the region at 14, where the exact product 14.5 would be rounded to 15.
\<close>

lemma product_below_half:
  "num_mul (num_div_by (Fin 145) 1000) (num_of_int 100) = Fin (8162774324609023 / 562949953421312)
   \<and> (8162774324609023 / 562949953421312 :: rat) < 29 / 2
   \<and> detectionRegion coerce 100 100 (boxOf 0 145 500 645)
       = Inr (Some \<lparr>region_x = Fin 14, region_y = Fin 0, region_w = Fin 50, region_h = Fin 50\<rparr>)"
  using boxOf_region [where W = 100 and H = 100 and coerce = coerce,
      OF _ _ _ _ scale_145_of_100 scale_0_of_100 scale_500_of_100_b scale_500_of_100_c]
    product_145_of_100
  by (simp add: spec_pixelRegion_def spec_clamp_def)

text \<open>
  Claim C5, as stated, fails: a box with \<open>xMax > xMin\<close> and \<open>yMax > yMin\<close> inside
  \<open>[0, 1000]\<close> whose scaled extent rounds to zero is rejected. On an image of 100 by
  100 pixels the box \<open>[0, 0, 1, 1]\<close> is a tenth of a pixel wide.
\<close>

theorem thin_box_rejected:
  "detectionRegion sampleCoerce 100 100 (boxOf 0 0 1 1) = Inr None"
  using boxOf_region [where W = 100 and H = 100 and coerce = sampleCoerce,
      OF _ _ _ _ scale_0_of_100 scale_0_of_100 scale_1_of_100 scale_1_of_100]
  by simp

text \<open>
  Claim C5, amended. Take a detection whose box holds four finite numbers with
  \<open>xMax > xMin\<close> and \<open>yMax > yMin\<close>, all in \<open>[0, 1000]\<close>, and an image whose width and
  height are positive integers up to \<open>2\<^sup>5\<^sup>3\<close>. The mapping raises nothing. It skips the
  detection exactly when the rounded width \<^verbatim>\<open>Math.round(((xmax - xmin) / 1000) * width)\<close>
  or the rounded height is below 1; a box that covers at least one pixel in each
  direction, \<open>(xMax - xMin) * width \<ge> 1000\<close> and \<open>(yMax - yMin) * height \<ge> 1000\<close>, is
  never skipped. A region that is not skipped has integer coordinates with \<open>0 \<le> x\<close>,
  \<open>0 \<le> y\<close>, \<open>x + w \<le> width\<close>, \<open>y + h \<le> height\<close>, \<open>0 < w\<close> and \<open>0 < h\<close>.
\<close>

theorem detectionRegion_bounds:
  assumes "0 < W" and "W \<le> 2 ^ 53" and "0 < H" and "H \<le> 2 ^ 53"
    and "box_2d_of d = Some (JArr [JNum (Fin ymin), JNum (Fin xmin), JNum (Fin ymax), JNum (Fin xmax)])"
    and "0 \<le> xmin" and "xmin < xmax" and "xmax \<le> 1000"
    and "0 \<le> ymin" and "ymin < ymax" and "ymax \<le> 1000"
  shows "(detectionRegion coerce W H d = Inr None
            \<longleftrightarrow> \<not> (num_le (Fin 1) (scaleRound (num_sub (Fin xmax) (Fin xmin)) (num_of_int W))
                   \<and> num_le (Fin 1) (scaleRound (num_sub (Fin ymax) (Fin ymin)) (num_of_int H))))
       \<and> (1000 \<le> (xmax - xmin) * of_int W \<and> 1000 \<le> (ymax - ymin) * of_int H \<longrightarrow>
            detectionRegion coerce W H d \<noteq> Inr None)
       \<and> (detectionRegion coerce W H d = Inr None
          \<or> (\<exists>x y w h.
                detectionRegion coerce W H d
                  = Inr (Some \<lparr>region_x = Fin (of_int x), region_y = Fin (of_int y),
                               region_w = Fin (of_int w), region_h = Fin (of_int h)\<rparr>)
                \<and> 0 \<le> x \<and> 0 \<le> y \<and> x + w \<le> W \<and> y + h \<le> H \<and> 0 < w \<and> 0 < h))"
proof -
  have numbers: "Fin xmin \<noteq> NaN" "Fin ymin \<noteq> NaN"
    "num_sub (Fin xmax) (Fin xmin) \<noteq> NaN" "num_sub (Fin ymax) (Fin ymin) \<noteq> NaN"
    by (simp_all add: toDouble_not_NaN)
  note skipped = detectionRegion_inside(1) [OF assms(1-5) numbers, of coerce]
  note inside = detectionRegion_inside(2) [OF assms(1-5) numbers, of coerce]
  have wide: "num_le (Fin 1) (scaleRound (num_sub (Fin xmax) (Fin xmin)) (num_of_int W))"
    if "1000 \<le> (xmax - xmin) * of_int W"
    using scaleRound_pixel_wide [OF assms(1,2) that] by simp
  have high: "num_le (Fin 1) (scaleRound (num_sub (Fin ymax) (Fin ymin)) (num_of_int H))"
    if "1000 \<le> (ymax - ymin) * of_int H"
    using scaleRound_pixel_wide [OF assms(3,4) that] by simp
  from wide high skipped have kept: "detectionRegion coerce W H d \<noteq> Inr None"
    if "1000 \<le> (xmax - xmin) * of_int W" and "1000 \<le> (ymax - ymin) * of_int H"
    using that by blast
  from skipped kept inside show ?thesis by blast
qed

text \<open>The second scenario of the specification lies in the domain and gives a region.\<close>

theorem detectionRegion_bounds_witness:
  "(0::int) < 1000 \<and> (1000::int) \<le> 2 ^ 53 \<and> (0::int) < 500 \<and> (500::int) \<le> 2 ^ 53
   \<and> (0::rat) \<le> 900 \<and> (900::rat) < 1000 \<and> (1000::rat) \<le> 1000
   \<and> (1000::rat) \<le> (1000 - 900) * of_int 1000 \<and> (1000::rat) \<le> (1000 - 900) * of_int 500
   \<and> num_le (Fin 1) (scaleRound (num_sub (Fin 1000) (Fin 900)) (num_of_int 1000))
   \<and> num_le (Fin 1) (scaleRound (num_sub (Fin 1000) (Fin 900)) (num_of_int 500))
   \<and> detectionRegion sampleCoerce 1000 500 (boxOf 900 900 1000 1000) \<noteq> Inr None"
proof -
  have w: "(0::int) < 1000" "(1000::int) \<le> 2 ^ 53" and h: "(0::int) < 500" "(500::int) \<le> 2 ^ 53"
    by simp_all
  have lo: "(0::rat) \<le> 900" and lt: "(900::rat) < 1000" and hi: "(1000::rat) \<le> 1000"
    by simp_all
  have pixels: "(1000::rat) \<le> (1000 - 900) * of_int 1000" "(1000::rat) \<le> (1000 - 900) * of_int 500"
    by simp_all
  note bounds = detectionRegion_bounds [OF w h box_2d_of_boxOf lo lt hi lo lt hi, of sampleCoerce]
  from bounds pixels
  have kept: "detectionRegion sampleCoerce 1000 500 (boxOf 900 900 1000 1000) \<noteq> Inr None"
    by blast
  with bounds
  have "num_le (Fin 1) (scaleRound (num_sub (Fin 1000) (Fin 900)) (num_of_int 1000))"
    and "num_le (Fin 1) (scaleRound (num_sub (Fin 1000) (Fin 900)) (num_of_int 500))"
    by blast+
  with w h lo lt hi pixels kept show ?thesis by blast
qed

text \<open>
  Claim C7, as stated, fails for a box entirely outside the bounds. Such a box is not
  rejected: its corner is clamped into the image and the extent is cut to what
  remains. On an image of 1000 by 1000 pixels the box \<open>[1200, 1200, 1300, 1300]\<close>
  gives the region of one pixel at \<open>(999, 999)\<close>, and the box
  \<open>[-5000, -5000, -4000, -4000]\<close> gives the whole image.
\<close>

theorem outside_box_blurred:
  "detectionRegion sampleCoerce 1000 1000 (boxOf 1200 1200 1300 1300)
     = Inr (Some \<lparr>region_x = Fin 999, region_y = Fin 999, region_w = Fin 1, region_h = Fin 1\<rparr>)
   \<and> detectionRegion sampleCoerce 1000 1000 (boxOf (- 5000) (- 5000) (- 4000) (- 4000))
       = Inr (Some \<lparr>region_x = Fin 0, region_y = Fin 0, region_w = Fin 1000, region_h = Fin 1000\<rparr>)"
  using boxOf_region [where W = 1000 and H = 1000 and coerce = sampleCoerce,
      OF _ _ _ _ scale_1200_of_1000 scale_1200_of_1000
        scale_1300_1200_of_1000 scale_1300_1200_of_1000]
    boxOf_region [where W = 1000 and H = 1000 and coerce = sampleCoerce,
      OF _ _ _ _ scale_minus_5000_of_1000 scale_minus_5000_of_1000
        scale_minus_4000_5000_of_1000 scale_minus_4000_5000_of_1000]
  by (simp add: spec_pixelRegion_def spec_clamp_def)

text \<open>
  Claim C7, amended. A detection with a box of four numbers whose rectangle has width
  or height at most 0 after rounding and clamping gives no region: the loop goes on
  with the same image and the same counter, and raises nothing. This is the case of a
  box of finite numbers with \<open>xMax \<le> xMin\<close> or \<open>yMax \<le> yMin\<close>, and of the box
  \<open>[500, 500, 500, 500]\<close>, on every image whose dimensions are positive integers up to
  \<open>2\<^sup>5\<^sup>3\<close>. A box outside the bounds is not among these cases.
\<close>

theorem nonpositive_region_skipped:
  assumes "box_2d_of d = Some (JArr [JNum ymin, JNum xmin, JNum ymax, JNum xmax])"
  shows "(num_le (region_w (pixelRect W H ymin xmin ymax xmax)) (Fin 0)
          \<or> num_le (region_h (pixelRect W H ymin xmin ymax xmax)) (Fin 0) \<longrightarrow>
            detectionRegion coerce W H d = Inr None
            \<and> blurLoop J coerce W H blurRadius (d # rest) img n
                = blurLoop J coerce W H blurRadius rest img n)
       \<and> (0 < W \<and> W \<le> 2 ^ 53 \<and> xmin = Fin a \<and> xmax = Fin b \<and> b \<le> a \<longrightarrow>
            detectionRegion coerce W H d = Inr None)
       \<and> (0 < H \<and> H \<le> 2 ^ 53 \<and> ymin = Fin a' \<and> ymax = Fin b' \<and> b' \<le> a' \<longrightarrow>
            detectionRegion coerce W H d = Inr None)
       \<and> (0 < W \<and> W \<le> 2 ^ 53 \<longrightarrow>
            detectionRegion coerce W H (boxOf 500 500 500 500) = Inr None)"
proof -
  let ?r = "pixelRect W H ymin xmin ymax xmax"
  have rejected: "detectionRegion coerce W H d = Inr None"
    if "num_le (region_w ?r) (Fin 0) \<or> num_le (region_h ?r) (Fin 0)"
    using that by (simp add: detectionRegion_numbers [OF assms])
  have skipped: "blurLoop J coerce W H blurRadius (d # rest) img n
      = blurLoop J coerce W H blurRadius rest img n"
    if "num_le (region_w ?r) (Fin 0) \<or> num_le (region_h ?r) (Fin 0)"
    using rejected [OF that] by (rule blurLoop_skip)
  have flat: "detectionRegion coerce W H d = Inr None"
    if "0 < W" and "W \<le> 2 ^ 53" and "xmin = Fin a" and "xmax = Fin b" and "b \<le> a"
    using region_w_flat [OF that(1,2,5), of H ymin ymax] that(3,4) by (simp add: rejected)
  have low: "detectionRegion coerce W H d = Inr None"
    if "0 < H" and "H \<le> 2 ^ 53" and "ymin = Fin a'" and "ymax = Fin b'" and "b' \<le> a'"
    using region_h_flat [OF that(1,2,5), of W xmin xmax] that(3,4) by (simp add: rejected)
  have point: "detectionRegion coerce W H (boxOf 500 500 500 500) = Inr None"
    if "0 < W" and "W \<le> 2 ^ 53"
    using that by (intro detectionRegion_flat) simp_all
  from rejected skipped flat low point show ?thesis by blast
qed

text \<open>A box that ends left of its start, on an image of 1000 by 1000 pixels.\<close>

theorem nonpositive_region_skipped_witness:
  "num_le (region_w (pixelRect 1000 1000 (Fin 0) (Fin 600) (Fin 100) (Fin 400))) (Fin 0)
   \<and> detectionRegion sampleCoerce 1000 1000 (boxOf 0 600 100 400) = Inr None
   \<and> blurLoop sampleJimp sampleCoerce 1000 1000 (Fin 13) [boxOf 0 600 100 400]
        \<lparr>bm_width = 1, bm_height = 1, bm_pixels = [7]\<rparr> 0
       = Inr (\<lparr>bm_width = 1, bm_height = 1, bm_pixels = [7]\<rparr>, 0)"
proof -
  have neg: "num_le (region_w (pixelRect 1000 1000 (Fin 0) (Fin 600) (Fin 100) (Fin 400))) (Fin 0)"
    by (rule region_w_flat) simp_all
  from nonpositive_region_skipped
    [OF box_2d_of_boxOf, of 1000 1000 0 600 100 400 sampleCoerce sampleJimp "Fin 13" "[]"
       "\<lparr>bm_width = 1, bm_height = 1, bm_pixels = [7]\<rparr>" 0]
    neg
  show ?thesis by simp
qed

text \<open>
  The numbers have to be finite. A box whose left and right edge are both infinite, as
  \<^verbatim>\<open>JSON.parse\<close> gives them for \<^verbatim>\<open>2e308\<close>, has the width NaN; the test \<^verbatim>\<open>w <= 0\<close> is
  false for it, and the region goes to \<^verbatim>\<open>crop\<close> with that width.
\<close>

lemma nan_width_not_skipped:
  "detectionRegion sampleCoerce 1000 1000
     (JObj [(''box_2d'', JArr [JNum (Fin 0), JNum PosInf, JNum (Fin 10), JNum PosInf])])
   = Inr (Some \<lparr>region_x = Fin 999, region_y = Fin 0, region_w = NaN, region_h = Fin 10\<rparr>)"
  by code_simp

subsection \<open>Validator\<close>

text \<open>
  Claim C9. Of a parsed array the validator keeps, in order, exactly the records that
  are objects whose \<^verbatim>\<open>box_2d\<close> member is an array of four numbers; every other record
  is dropped and nothing fails, so the result is never longer than the input. The
  numbers may have any value: there is no range check.
\<close>

theorem validator_keeps_wellformed_records:
  "validateParsed (JArr records) = filter isValidBoundingBox records
   \<and> length (validateParsed (JArr records)) \<le> length records
   \<and> (isValidBoundingBox r \<longleftrightarrow>
        (\<exists>members a b c d. r = JObj members
           \<and> getProperty members ''box_2d'' = Some (JArr [JNum a, JNum b, JNum c, JNum d])))"
  using isValidBoundingBox_iff [of r] by (simp add: validateParsed_def)

text \<open>
  Five records: null, a box with entries far outside \<open>[0, 1000]\<close>, a box with a string
  entry, an object without a box, an array. Only the second is kept.
\<close>

theorem validator_keeps_wellformed_records_witness:
  "validateParsed (JArr
      [JNull,
       JObj [(''box_2d'', JArr [JNum (Fin 5000), JNum (Fin (- 3)), JNum (Fin 1), JNum (Fin 2)])],
       JObj [(''box_2d'', JArr [JNum (Fin 1), JStr ''2'', JNum (Fin 3), JNum (Fin 4)])],
       JObj [(''label'', JStr ''face'')],
       JArr [JNum (Fin 1), JNum (Fin 2), JNum (Fin 3), JNum (Fin 4)]])
     = [JObj [(''box_2d'', JArr [JNum (Fin 5000), JNum (Fin (- 3)), JNum (Fin 1), JNum (Fin 2)])]]"
proof -
  have "isValidBoundingBox
      (JObj [(''box_2d'', JArr [JNum (Fin 5000), JNum (Fin (- 3)), JNum (Fin 1), JNum (Fin 2)])])"
    using validator_keeps_wellformed_records
      [of "[]" "JObj [(''box_2d'', JArr [JNum (Fin 5000), JNum (Fin (- 3)), JNum (Fin 1), JNum (Fin 2)])]"]
    by (simp add: getProperty_def)
  moreover have "\<not> isValidBoundingBox JNull"
    and "\<not> isValidBoundingBox
          (JObj [(''box_2d'', JArr [JNum (Fin 1), JStr ''2'', JNum (Fin 3), JNum (Fin 4)])])"
    and "\<not> isValidBoundingBox (JObj [(''label'', JStr ''face'')])"
    and "\<not> isValidBoundingBox (JArr [JNum (Fin 1), JNum (Fin 2), JNum (Fin 3), JNum (Fin 4)])"
    by (simp_all add: isValidBoundingBox_def typeofObject_def box_2d_of_def getProperty_def
        typeofNumber_def)
  ultimately show ?thesis
    by (simp add: validateParsed_def)
qed

subsection \<open>Response parser\<close>

text \<open>
  Claim C8. Both parsers return on every text and for every behaviour of
  \<^verbatim>\<open>JSON.parse\<close>: no exception leaves them. When \<^verbatim>\<open>JSON.parse\<close> rejects each text the
  fallback chain can offer, the result is the empty sequence.
\<close>

theorem parser_never_raises:
  "(\<exists>v. parseJsonResponse JSON_parse text = Inr v)
   \<and> (\<exists>vs. parseAndValidateDetections JSON_parse text = Inr vs)
   \<and> ((\<forall>s \<in> set (parseCandidates text). \<exists>e. JSON_parse s = Inl e) \<longrightarrow>
        parseJsonResponse JSON_parse text = Inr (JArr [])
        \<and> parseAndValidateDetections JSON_parse text = Inr [])"
  using parseJsonResponse_total parseAndValidateDetections_total
    parseJsonResponse_all_fail parseAndValidateDetections_all_fail
  by blast

lemma matchFence_sample: "matchFence ''sorry, I cannot [see] {the image'' = None"
  by code_simp

lemma matchArray_sample: "matchArray ''sorry, I cannot [see] {the image'' = Some ''[see]''"
  by code_simp

text \<open>A reply in prose: neither the whole text nor its bracketed part is JSON.\<close>

theorem parser_never_raises_witness:
  "parseCandidates ''sorry, I cannot [see] {the image''
     = [''sorry, I cannot [see] {the image'', ''[see]'']
   \<and> sampleParse ''sorry, I cannot [see] {the image'' = Inl SyntaxError
   \<and> sampleParse ''[see]'' = Inl SyntaxError
   \<and> parseJsonResponse sampleParse ''sorry, I cannot [see] {the image'' = Inr (JArr [])
   \<and> parseAndValidateDetections sampleParse ''sorry, I cannot [see] {the image'' = Inr []"
proof -
  have c: "parseCandidates ''sorry, I cannot [see] {the image''
      = [''sorry, I cannot [see] {the image'', ''[see]'']"
    by (simp add: parseCandidates_def matchFence_sample matchArray_sample)
  have f: "sampleParse ''sorry, I cannot [see] {the image'' = Inl SyntaxError"
    "sampleParse ''[see]'' = Inl SyntaxError"
    by (simp_all add: sampleParse_def)
  have "\<forall>s \<in> set (parseCandidates ''sorry, I cannot [see] {the image''). \<exists>e. sampleParse s = Inl e"
    unfolding c using f by simp
  with parser_never_raises [of sampleParse "''sorry, I cannot [see] {the image''"] c f
  show ?thesis by simp
qed

text \<open>
  Claim C4 describes a chain in which the bracketed substring is tried whenever the
  earlier steps fail. The code leaves the chain earlier. On a text with a fenced block
  that is not JSON, followed by a JSON array, \<^const>\<open>parseJsonResponse\<close> returns the
  empty array although the bracketed substring parses. On a text without a fenced
  block \<^const>\<open>parseAndValidateDetections\<close> returns the empty list although the
  bracketed substring parses to a valid detection.
\<close>

theorem parser_leaves_chain_early:
  "parseJsonResponse sampleParse ''```oops``` [{\"box_2d\":[1,2,3,4]}]'' = Inr (JArr [])
   \<and> matchFence ''```oops``` [{\"box_2d\":[1,2,3,4]}]'' = Some ''oops''
   \<and> matchArray ''```oops``` [{\"box_2d\":[1,2,3,4]}]'' = Some ''[{\"box_2d\":[1,2,3,4]}]''
   \<and> sampleParse ''[{\"box_2d\":[1,2,3,4]}]''
       = Inr (JArr [JObj [(''box_2d'', JArr [JNum (Fin 1), JNum (Fin 2), JNum (Fin 3), JNum (Fin 4)])]])
   \<and> parseAndValidateDetections sampleParse ''found: [{\"box_2d\":[1,2,3,4]}]'' = Inr []
   \<and> matchFence ''found: [{\"box_2d\":[1,2,3,4]}]'' = None
   \<and> matchArray ''found: [{\"box_2d\":[1,2,3,4]}]'' = Some ''[{\"box_2d\":[1,2,3,4]}]''"
  by code_simp

subsection \<open>Restore\<close>

text \<open>
  Claim C2, as stated, fails: the code accepts every path that contains the marker
  anywhere. The file \<^verbatim>\<open>my_backup_plan.png\<close> does not carry the marker before its
  extension, and yet restore copies it to \<^verbatim>\<open>my_plan.png\<close> and deletes it.
\<close>

theorem restore_accepts_marker_inside_name:
  "\<not> followsBackupConvention posix ''/img/my_backup_plan.png''
   \<and> snd (restoreFromBackup posix [''/img/my_backup_plan.png'' \<mapsto> [1, 2, 3]]
            (Some ''/img/my_backup_plan.png'')) = Restored ''my_plan.png''
   \<and> fst (restoreFromBackup posix [''/img/my_backup_plan.png'' \<mapsto> [1, 2, 3]]
            (Some ''/img/my_backup_plan.png'')) ''/img/my_backup_plan.png'' = None
   \<and> fst (restoreFromBackup posix [''/img/my_backup_plan.png'' \<mapsto> [1, 2, 3]]
            (Some ''/img/my_backup_plan.png'')) ''/img/my_plan.png'' = Some [1, 2, 3]"
  by code_simp

text \<open>
  Claim C2, amended. Restore refuses a missing or empty path with the request to pick
  a file, and a path that does not contain \<^verbatim>\<open>_backup\<close> anywhere with the message that
  it is not a backup; neither touches a file. A backup that follows the naming
  convention is restored: when the base name of the path is a stem followed by the
  marker, the stem does not contain the marker, the path names a file and differs from
  the original path (the stem with the extension, in the same directory), restore
  copies the bytes of the file to the original path and then deletes the file.
\<close>

theorem restore_contract:
  "restoreFromBackup P fs None = (fs, NoFileSelected)
   \<and> restoreFromBackup P fs (Some []) = (fs, NoFileSelected)
   \<and> (p \<noteq> [] \<and> \<not> includesStr p ''_backup'' \<longrightarrow>
        restoreFromBackup P fs (Some p) = (fs, NotABackupFile))
   \<and> (includesStr p ''_backup''
      \<and> path_basename P p (path_extname P p) = stem @ ''_backup''
      \<and> \<not> includesStr stem ''_backup''
      \<and> fs p = Some content
      \<and> path_join P (path_dirname P p) (stem @ path_extname P p) \<noteq> p \<longrightarrow>
        restoreFromBackup P fs (Some p)
          = ((fs(path_join P (path_dirname P p) (stem @ path_extname P p) \<mapsto> content))(p := None),
             Restored (stem @ path_extname P p)))"
  using restore_rejected [of p P fs] restore_convention [of p P stem fs content]
  by (simp add: restoreFromBackup_def)

text \<open>
  The backup that a redaction of \<^verbatim>\<open>/img/photo.png\<close> makes, beside the blurred original:
  restore puts the bytes of the backup at the original path and the backup is gone. A
  path without the marker is refused.
\<close>

theorem restore_contract_witness:
  "backupPathOf posix ''/img/photo.png'' = ''/img/photo_backup.png''
   \<and> includesStr ''/img/photo_backup.png'' ''_backup''
   \<and> \<not> includesStr ''photo'' ''_backup''
   \<and> fst (restoreFromBackup posix
            [''/img/photo.png'' \<mapsto> [9], ''/img/photo_backup.png'' \<mapsto> [1, 2, 3]]
            (Some ''/img/photo_backup.png'')) ''/img/photo.png'' = Some [1, 2, 3]
   \<and> fst (restoreFromBackup posix
            [''/img/photo.png'' \<mapsto> [9], ''/img/photo_backup.png'' \<mapsto> [1, 2, 3]]
            (Some ''/img/photo_backup.png'')) ''/img/photo_backup.png'' = None
   \<and> snd (restoreFromBackup posix
            [''/img/photo.png'' \<mapsto> [9], ''/img/photo_backup.png'' \<mapsto> [1, 2, 3]]
            (Some ''/img/photo_backup.png'')) = Restored ''photo.png''
   \<and> \<not> includesStr ''/img/photo.png'' ''_backup''
   \<and> snd (restoreFromBackup posix
            [''/img/photo.png'' \<mapsto> [9], ''/img/photo_backup.png'' \<mapsto> [1, 2, 3]]
            (Some ''/img/photo.png'')) = NotABackupFile"
proof -
  let ?fs = "[''/img/photo.png'' \<mapsto> [9::nat], ''/img/photo_backup.png'' \<mapsto> [1, 2, 3]]"
  have made: "backupPathOf posix ''/img/photo.png'' = ''/img/photo_backup.png''"
    by code_simp
  have marked: "includesStr ''/img/photo_backup.png'' ''_backup''"
    and stem: "\<not> includesStr ''photo'' ''_backup''"
    and plain: "\<not> includesStr ''/img/photo.png'' ''_backup''"
    by code_simp+
  have ext: "path_extname posix ''/img/photo_backup.png'' = ''.png''"
    and base: "path_basename posix ''/img/photo_backup.png'' ''.png'' = ''photo_backup''"
    and dir: "path_dirname posix ''/img/photo_backup.png'' = ''/img''"
    and joined: "path_join posix ''/img'' ''photo.png'' = ''/img/photo.png''"
    by code_simp+
  have there: "?fs ''/img/photo_backup.png'' = Some [1, 2, 3]"
    by simp
  from restore_contract
    [where P = posix and fs = ?fs and p = "''/img/photo_backup.png''" and stem = "''photo''"
       and content = "[1, 2, 3]"]
    marked stem there ext base dir joined
  have restored: "restoreFromBackup posix ?fs (Some ''/img/photo_backup.png'')
      = ((?fs(''/img/photo.png'' \<mapsto> [1, 2, 3]))(''/img/photo_backup.png'' := None),
         Restored ''photo.png'')"
    by simp
  from restore_contract [where P = posix and fs = ?fs and p = "''/img/photo.png''"] plain
  have refused: "restoreFromBackup posix ?fs (Some ''/img/photo.png'') = (?fs, NotABackupFile)"
    by simp
  from made marked stem plain restored refused show ?thesis
    by simp
qed

text \<open>
  The amended claim leaves out the originals whose base name contains the marker. The
  backup of \<^verbatim>\<open>my_backup_plan.png\<close> is \<^verbatim>\<open>my_backup_plan_backup.png\<close>; restore removes
  the first marker of that name, not the last, and so copies the backup to
  \<^verbatim>\<open>my_plan_backup.png\<close>.
\<close>

lemma restore_removes_first_marker:
  "backupPathOf posix ''/img/my_backup_plan.png'' = ''/img/my_backup_plan_backup.png''
   \<and> originalPathOf posix ''/img/my_backup_plan_backup.png'' = ''/img/my_plan_backup.png''"
  by code_simp

end
